theory Spec2Isabelle
  imports Complex_Main "HOL-Library.Code_Target_Nat"
begin

section \<open>Python primitives used by texeval2mtex.py\<close>

text \<open>
  Exceptions are values.  The first four constructors are the built-in exceptions that the
  statements of the script can raise.  The remaining constructors are the error kinds named by
  the specification; no statement of the script constructs any of them, they are here so that
  statements about them can be written down.

  Python floats are modelled as exact rationals: the model agrees with the script wherever the
  float operations involved are exact (steps such as 5.0 or 2.5 and intensities with a few
  decimals), and \<open>int\<close>, \<open>round\<close> and the \<open>%\<close>-formats act on the exact value.
\<close>

datatype error =
    IndexError
  | ValueError
  | TypeError
  | ZeroDivisionError
  | InvalidExtension
  | MalformedHeader
  | HeaderNotFound string bool
  | IntensityBlockSizeMismatch
  | PlaneCountOutOfRange

text \<open>\<open>str.isspace\<close> on the ASCII range.\<close>

definition is_space :: "char \<Rightarrow> bool" where
  "is_space c \<longleftrightarrow> c \<in> set [CHR '' '', CHR 0x09, CHR 0x0A, CHR 0x0B, CHR 0x0C, CHR 0x0D,
                           CHR 0x1C, CHR 0x1D, CHR 0x1E, CHR 0x1F]"

text \<open>\<open>s.rstrip()\<close>\<close>

definition rstrip :: "string \<Rightarrow> string" where
  "rstrip s = rev (dropWhile is_space (rev s))"

text \<open>\<open>s.split()\<close>: the maximal runs of non-whitespace characters, in order.\<close>

fun split_acc :: "string \<Rightarrow> string \<Rightarrow> string list" where
  "split_acc cur [] = (if cur = [] then [] else [cur])"
| "split_acc cur (c # cs) =
     (if is_space c then (if cur = [] then split_acc [] cs else cur # split_acc [] cs)
      else split_acc (cur @ [c]) cs)"

definition split_ws :: "string \<Rightarrow> string list" where
  "split_ws s = split_acc [] s"

text \<open>\<open>s.endswith(t)\<close>\<close>

definition endswith :: "string \<Rightarrow> string \<Rightarrow> bool" where
  "endswith s t \<longleftrightarrow> length t \<le> length s \<and> drop (length s - length t) s = t"

text \<open>\<open>''.ljust(n)\<close>: n spaces.\<close>

definition ljust_empty :: "nat \<Rightarrow> string" where
  "ljust_empty n = replicate n CHR '' ''"

text \<open>\<open>xs[:n]\<close> for an integer n of either sign.\<close>

definition slice_to :: "int \<Rightarrow> 'a list \<Rightarrow> 'a list" where
  "slice_to n xs = (if n < 0 then take (nat (int (length xs) + n)) xs else take (nat n) xs)"

text \<open>\<open>str(n)\<close> for integers.\<close>

definition digit_char :: "nat \<Rightarrow> char" where
  "digit_char d = ''0123456789'' ! d"

fun str_nat :: "nat \<Rightarrow> string" where
  "str_nat n = (if n < 10 then [digit_char n] else str_nat (n div 10) @ [digit_char (n mod 10)])"

declare str_nat.simps [simp del]

definition str_int :: "int \<Rightarrow> string" where
  "str_int i = (if i < 0 then CHR ''-'' # str_nat (nat (- i)) else str_nat (nat i))"

text \<open>\<open>int(x)\<close> for a float x: truncation towards zero.\<close>

definition py_int :: "rat \<Rightarrow> int" where
  "py_int q = (if q < 0 then \<lceil>q\<rceil> else \<lfloor>q\<rfloor>)"

text \<open>Rounding of the exact value to the nearest integer, ties to even.\<close>

definition round_half_even :: "rat \<Rightarrow> int" where
  "round_half_even q =
     (let f = \<lfloor>q\<rfloor>; r = q - of_int f
      in if r < 1 / 2 then f else if 1 / 2 < r then f + 1 else if even f then f else f + 1)"

text \<open>\<open>round(x, 3)\<close>\<close>

definition py_round3 :: "rat \<Rightarrow> rat" where
  "py_round3 q = of_int (round_half_even (q * 1000)) / 1000"

text \<open>\<open>'%.<d>f' % x\<close> for d > 0: sign, integer part, point, d digits.\<close>

definition zfill :: "nat \<Rightarrow> string \<Rightarrow> string" where
  "zfill d s = replicate (d - length s) CHR ''0'' @ s"

definition fmt_fixed :: "nat \<Rightarrow> rat \<Rightarrow> string" where
  "fmt_fixed d q =
     (let n = nat (round_half_even (\<bar>q\<bar> * 10 ^ d))
      in (if q < 0 then ''-'' else '''') @ str_nat (n div 10 ^ d) @ ''.'' @ zfill d (str_nat (n mod 10 ^ d)))"

text \<open>\<open>'%i' % x\<close> for a float x.\<close>

definition fmt_i :: "rat \<Rightarrow> string" where
  "fmt_i q = str_int (py_int q)"

section \<open>The data frame \<open>pfs_df\<close>\<close>

text \<open>
  One row per plane, labelled by the plane name, with the four columns \<open>uncorr_head\<close>,
  \<open>uncorr_head_pos\<close>, \<open>corr_head\<close>, \<open>corr_head_pos\<close> (positions 0 to 3).  A fresh cell holds
  NaN, which is \<open>None\<close> here.  The script creates the last two columns only when the correction
  marker is present, and reads or writes them only in that case.
\<close>

record pf_row =
  plane :: string
  uncorr_head :: "string option"
  uncorr_head_pos :: "nat option"
  corr_head :: "string option"
  corr_head_pos :: "nat option"

type_synonym dataframe = "pf_row list"

definition planes :: "string list" where
  "planes = [''111'', ''200'', ''220'', ''311'', ''222'', ''400'']"

definition new_row :: "string \<Rightarrow> pf_row" where
  "new_row p = \<lparr>plane = p, uncorr_head = None, uncorr_head_pos = None,
                corr_head = None, corr_head_pos = None\<rparr>"

definition new_df :: "int \<Rightarrow> dataframe" where
  "new_df n_pfs = map new_row (slice_to n_pfs planes)"

text \<open>Column \<open>pos\<close> (0 or 2) and column \<open>pos + 1\<close> of a row, selected by \<open>corr_data\<close>.\<close>

definition head_of :: "bool \<Rightarrow> pf_row \<Rightarrow> string option" where
  "head_of corr_data r = (if corr_data then corr_head r else uncorr_head r)"

definition head_pos_of :: "bool \<Rightarrow> pf_row \<Rightarrow> nat option" where
  "head_pos_of corr_data r = (if corr_data then corr_head_pos r else uncorr_head_pos r)"

definition set_head :: "bool \<Rightarrow> string \<Rightarrow> pf_row \<Rightarrow> pf_row" where
  "set_head corr_data s r =
     (if corr_data then r\<lparr>corr_head := Some s\<rparr> else r\<lparr>uncorr_head := Some s\<rparr>)"

definition set_head_pos :: "bool \<Rightarrow> nat \<Rightarrow> pf_row \<Rightarrow> pf_row" where
  "set_head_pos corr_data n r =
     (if corr_data then r\<lparr>corr_head_pos := Some n\<rparr> else r\<lparr>uncorr_head_pos := Some n\<rparr>)"

definition polar_max_of :: "bool \<Rightarrow> rat" where
  "polar_max_of corr_data = (if corr_data then 90 else 80)"

section \<open>\<open>get_meta_data\<close>\<close>

text \<open>
  The right-hand side of lines 69 to 73.  The two quotients are evaluated left to right and a
  zero step raises ZeroDivisionError.
\<close>

definition header_signature :: "bool \<Rightarrow> string \<Rightarrow> string \<Rightarrow> string \<Rightarrow> rat \<Rightarrow> rat \<Rightarrow> error + string" where
  "header_signature corr_data plane_str step_polar_str step_azimuthal_str step_polar step_azimuthal =
     (if step_azimuthal = 0 then Inl ZeroDivisionError
      else if step_polar = 0 then Inl ZeroDivisionError
      else Inr (ljust_empty 1 @ plane_str @ ljust_empty 7
            @ step_azimuthal_str @ ljust_empty 3 @ str_int (py_int (360 / step_azimuthal))
            @ ljust_empty 4 @ str_int 0 @ ljust_empty 1 @ step_polar_str
            @ ljust_empty 3 @ str_int (py_int (polar_max_of corr_data / step_polar)) @ ljust_empty 4
            @ str_int 0))"

text \<open>The loop of lines 67 to 73 over \<open>range(n_pfs)\<close>; \<open>iloc[i]\<close> raises IndexError past the last row.\<close>

fun head_loop :: "bool \<Rightarrow> string \<Rightarrow> string \<Rightarrow> rat \<Rightarrow> rat \<Rightarrow> nat list \<Rightarrow> dataframe \<Rightarrow> error + dataframe" where
  "head_loop corr_data sps sas sp sa [] df = Inr df"
| "head_loop corr_data sps sas sp sa (i # is) df =
     (if length df \<le> i then Inl IndexError
      else case header_signature corr_data (plane (df ! i)) sps sas sp sa of
             Inl e \<Rightarrow> Inl e
           | Inr s \<Rightarrow> head_loop corr_data sps sas sp sa is (df[i := set_head corr_data s (df ! i)]))"

text \<open>
  The inner loop of lines 78 to 81 for one line: the first row whose header equals the
  stripped line gets the position, and \<open>break\<close> leaves the inner loop.
\<close>

fun mark_first :: "bool \<Rightarrow> string \<Rightarrow> nat \<Rightarrow> dataframe \<Rightarrow> dataframe" where
  "mark_first corr_data l n [] = []"
| "mark_first corr_data l n (r # rs) =
     (if head_of corr_data r = Some l then set_head_pos corr_data n r # rs
      else r # mark_first corr_data l n rs)"

text \<open>The outer loop of lines 75 to 81; \<open>lineCount\<close> is incremented before the line is compared.\<close>

fun scan :: "bool \<Rightarrow> nat \<Rightarrow> string list \<Rightarrow> dataframe \<Rightarrow> dataframe" where
  "scan corr_data lineCount [] df = df"
| "scan corr_data lineCount (line # rest) df =
     scan corr_data (lineCount + 1) rest
       (mark_first corr_data (rstrip line) ((lineCount + 1) - 1) df)"

definition get_meta_data ::
  "int \<Rightarrow> dataframe \<Rightarrow> string list \<Rightarrow> string \<Rightarrow> string \<Rightarrow> rat \<Rightarrow> rat \<Rightarrow> bool \<Rightarrow> error + dataframe" where
  "get_meta_data n_pfs pfs_df content step_polar_str step_azimuthal_str step_polar step_azimuthal corr_data =
     (case head_loop corr_data step_polar_str step_azimuthal_str step_polar step_azimuthal
             [0..<nat n_pfs] pfs_df of
        Inl e \<Rightarrow> Inl e
      | Inr df \<Rightarrow> Inr (scan corr_data 0 content df))"

section \<open>\<open>get_intensities\<close>\<close>

text \<open>
  \<open>float\<close> is Python's built-in conversion of a token; it is a parameter \<open>fl\<close> of the model
  (\<open>None\<close> where \<open>float\<close> raises ValueError), so that what is proved holds for every
  behaviour of the conversion.  The comprehension of line 124 converts and rounds the tokens
  of a line in order.
\<close>

fun parse_tokens :: "(string \<Rightarrow> rat option) \<Rightarrow> string list \<Rightarrow> error + rat list" where
  "parse_tokens fl [] = Inr []"
| "parse_tokens fl (t # ts) =
     (case fl t of
        None \<Rightarrow> Inl ValueError
      | Some v \<Rightarrow> (case parse_tokens fl ts of
                     Inl e \<Rightarrow> Inl e
                   | Inr vs \<Rightarrow> Inr (py_round3 v # vs)))"

text \<open>
  The assignment \<open>row[i_pf:(i_pf + len(ints))] = ints\<close> of line 125 on a one-dimensional
  numpy row.  The slice is clipped to the row; the value is copied when its length is the length
  of the clipped slice, a value of length 1 is broadcast over the clipped slice (which is then
  empty, so that the row is unchanged), and every other length raises ValueError.
\<close>

definition set_slice :: "nat \<Rightarrow> rat list \<Rightarrow> rat list \<Rightarrow> error + rat list" where
  "set_slice i_pf ints row =
     (let n = length ints;
          lo = min i_pf (length row);
          hi = min (i_pf + n) (length row)
      in if hi - lo = n then Inr (take lo row @ ints @ drop hi row)
         else if n = 1 then Inr (take lo row @ replicate (hi - lo) (hd ints) @ drop hi row)
         else Inl ValueError)"

text \<open>
  The loop of lines 122 to 126 over k for the block that starts at line index j, on the grid
  \<open>g\<close> of one plane.  In order: \<open>content[i_content]\<close> raises IndexError past the last line,
  \<open>float\<close> raises ValueError, the ring index \<open>i_pa\<close> raises IndexError past the last ring, and
  the slice assignment raises ValueError.
\<close>

fun block_loop ::
  "(string \<Rightarrow> rat option) \<Rightarrow> string list \<Rightarrow> nat \<Rightarrow> nat list \<Rightarrow> nat \<Rightarrow> nat \<Rightarrow> rat list list
     \<Rightarrow> error + rat list list" where
  "block_loop fl content j [] i_pa i_pf g = Inr g"
| "block_loop fl content j (k # ks) i_pa i_pf g =
     (let i_content = j + k
      in if length content \<le> i_content then Inl IndexError
         else case parse_tokens fl (split_ws (content ! i_content)) of
                Inl e \<Rightarrow> Inl e
              | Inr ints \<Rightarrow>
                  if length g \<le> i_pa then Inl IndexError
                  else (case set_slice i_pf ints (g ! i_pa) of
                          Inl e \<Rightarrow> Inl e
                        | Inr row \<Rightarrow>
                            block_loop fl content j ks i_pa (i_pf + length ints) (g[i_pa := row])))"

text \<open>The loop of lines 120 to 127 over j, with the ring counter \<open>i_pa\<close>.\<close>

fun ring_loop ::
  "(string \<Rightarrow> rat option) \<Rightarrow> string list \<Rightarrow> nat \<Rightarrow> nat list \<Rightarrow> nat \<Rightarrow> rat list list
     \<Rightarrow> error + rat list list" where
  "ring_loop fl content step [] i_pa g = Inr g"
| "ring_loop fl content step (j # js) i_pa g =
     (case block_loop fl content j [0..<step] i_pa 0 g of
        Inl e \<Rightarrow> Inl e
      | Inr g' \<Rightarrow> ring_loop fl content step js (i_pa + 1) g')"

text \<open>\<open>range(start, stop, step)\<close> for a positive step and a start that is not negative.\<close>

definition py_range :: "nat \<Rightarrow> int \<Rightarrow> nat \<Rightarrow> nat list" where
  "py_range start stop step =
     map (\<lambda>t. start + step * t) [0..<nat ((stop - int start + int step - 1) div int step)]"

text \<open>
  The loop of lines 116 to 127 over the planes.  An unset position is NaN: \<open>start\<close> and
  \<open>stop\<close> are then NaN as well and \<open>range\<close> raises TypeError; \<open>range\<close> raises ValueError for a
  zero step.
\<close>

fun plane_loop ::
  "(string \<Rightarrow> rat option) \<Rightarrow> string list \<Rightarrow> bool \<Rightarrow> dataframe \<Rightarrow> nat \<Rightarrow> int \<Rightarrow> nat list
     \<Rightarrow> rat list list list \<Rightarrow> error + rat list list list" where
  "plane_loop fl content corr_data df step stop_increment [] pfs_ints = Inr pfs_ints"
| "plane_loop fl content corr_data df step stop_increment (i # is) pfs_ints =
     (if length df \<le> i then Inl IndexError
      else case head_pos_of corr_data (df ! i) of
             None \<Rightarrow> Inl TypeError
           | Some p \<Rightarrow>
               (let start = p + 1;
                    stop = int start + stop_increment
                in if step = 0 then Inl ValueError
                   else (case ring_loop fl content step (py_range start stop step) 0 (pfs_ints ! i) of
                           Inl e \<Rightarrow> Inl e
                         | Inr g \<Rightarrow>
                             plane_loop fl content corr_data df step stop_increment is
                               (pfs_ints[i := g]))))"

text \<open>
  Lines 105 to 129.  \<open>np.zeros\<close> raises ValueError for a negative dimension.  The script reads
  \<open>content\<close> as a global; it is an argument here.
\<close>

definition get_intensities ::
  "(string \<Rightarrow> rat option) \<Rightarrow> string list \<Rightarrow> int \<Rightarrow> dataframe \<Rightarrow> rat \<Rightarrow> rat \<Rightarrow> nat \<Rightarrow> bool
     \<Rightarrow> error + rat list list list" where
  "get_intensities fl content n_pfs pfs_df step_polar step_azimuthal step corr_data =
     (let polar_max = polar_max_of corr_data
      in if step_polar = 0 then Inl ZeroDivisionError
         else let stop_increment = py_int (of_nat step * polar_max / step_polar)
              in if step_azimuthal = 0 then Inl ZeroDivisionError
                 else let d1 = py_int (polar_max / step_polar);
                          d2 = py_int (360 / step_azimuthal)
                      in if n_pfs < 0 \<or> d1 < 0 \<or> d2 < 0 then Inl ValueError
                         else plane_loop fl content corr_data pfs_df step stop_increment
                                [0..<nat n_pfs]
                                (replicate (nat n_pfs) (replicate (nat d1) (replicate (nat d2) 0))))"

section \<open>\<open>write_intensities_to_file\<close>\<close>

text \<open>
  The array \<open>pfs_ints\<close> is a list of planes, each a list of rings of equal length.  Its second
  and third dimensions are read off the first plane and its first ring; where there is no plane
  or no ring the dimension is not recorded in the list and is taken as 0, which writes the same
  files, since no row is written in either case.
\<close>

definition shape1 :: "rat list list list \<Rightarrow> nat" where
  "shape1 pfs_ints = (case pfs_ints of [] \<Rightarrow> 0 | g # _ \<Rightarrow> length g)"

definition shape2 :: "rat list list list \<Rightarrow> nat" where
  "shape2 pfs_ints = (case pfs_ints of [] \<Rightarrow> 0 | g # _ \<Rightarrow> (case g of [] \<Rightarrow> 0 | r # _ \<Rightarrow> length r))"

text \<open>The loop of lines 159 to 161 on one row of \<open>azimuthal\<close>, with the running sum k.\<close>

fun azimuthal_fill :: "rat \<Rightarrow> nat list \<Rightarrow> rat \<Rightarrow> rat list \<Rightarrow> rat list" where
  "azimuthal_fill step_azimuthal [] k row = row"
| "azimuthal_fill step_azimuthal (l # ls) k row =
     azimuthal_fill step_azimuthal ls (k + step_azimuthal) (row[l := k])"

text \<open>The arrays \<open>polar\<close> and \<open>azimuthal\<close> after the loop of lines 156 to 161.\<close>

definition polar_array :: "nat \<Rightarrow> nat \<Rightarrow> rat \<Rightarrow> rat list list" where
  "polar_array polar_max azimuthal_max step_polar =
     map (\<lambda>j. replicate azimuthal_max (of_nat j * step_polar)) [0..<polar_max]"

definition azimuthal_array :: "nat \<Rightarrow> nat \<Rightarrow> rat \<Rightarrow> rat list list" where
  "azimuthal_array polar_max azimuthal_max step_azimuthal =
     map (\<lambda>j. azimuthal_fill step_azimuthal [0..<azimuthal_max] 0 (replicate azimuthal_max 0))
       [0..<polar_max]"

text \<open>One line of \<open>np.savetxt\<close> with \<open>fmt=['%i', '%i', '%.3f']\<close> and the default delimiter.\<close>

fun fmt_row :: "rat \<times> rat \<times> rat \<Rightarrow> string" where
  "fmt_row (p, a, v) = fmt_i p @ '' '' @ fmt_i a @ '' '' @ fmt_fixed 3 v"

text \<open>The rows of \<open>data\<close> (line 167): the three flattened arrays side by side.\<close>

definition data_rows :: "rat list list \<Rightarrow> rat list list \<Rightarrow> rat list list \<Rightarrow> (rat \<times> rat \<times> rat) list" where
  "data_rows polar azimuthal pf_ints = zip (concat polar) (zip (concat azimuthal) (concat pf_ints))"

definition outfile_name :: "string \<Rightarrow> string \<Rightarrow> bool \<Rightarrow> string" where
  "outfile_name infile plane_str corr_data =
     take (length infile - 4) infile @ ''_pf'' @ plane_str
       @ (if corr_data then ''_corr.dat'' else ''_uncorr.dat'')"

text \<open>
  A written file is its name and its lines (each ended by a newline in the file).  The loop
  of lines 165 to 173 returns the files written so far together with the exception that
  stopped it, if any.
\<close>

type_synonym outfile = "string \<times> string list"

fun write_loop ::
  "rat list list \<Rightarrow> rat list list \<Rightarrow> rat list list list \<Rightarrow> dataframe \<Rightarrow> string \<Rightarrow> bool \<Rightarrow> nat list
     \<Rightarrow> outfile list \<times> error option" where
  "write_loop polar azimuthal pfs_ints df infile corr_data [] = ([], None)"
| "write_loop polar azimuthal pfs_ints df infile corr_data (i # is) =
     (if length df \<le> i then ([], Some IndexError)
      else (let file = (outfile_name infile (plane (df ! i)) corr_data,
                        map fmt_row (data_rows polar azimuthal (pfs_ints ! i)));
                rest = write_loop polar azimuthal pfs_ints df infile corr_data is
            in (file # fst rest, snd rest)))"

definition write_intensities_to_file ::
  "rat list list list \<Rightarrow> dataframe \<Rightarrow> string \<Rightarrow> rat \<Rightarrow> rat \<Rightarrow> bool \<Rightarrow> outfile list \<times> error option" where
  "write_intensities_to_file pfs_ints pfs_df infile step_polar step_azimuthal corr_data =
     (let polar_max = shape1 pfs_ints;
          azimuthal_max = shape2 pfs_ints;
          polar = polar_array polar_max azimuthal_max step_polar;
          azimuthal = azimuthal_array polar_max azimuthal_max step_azimuthal
      in write_loop polar azimuthal pfs_ints pfs_df infile corr_data [0..<length pfs_ints])"

section \<open>The module-level flow\<close>

text \<open>
  What a run leaves behind: the arguments of the calls of \<open>print\<close>, the files written, and
  how it ends: the last statement is reached, \<open>sys.exit\<close> is called (\<open>sys.exit()\<close> without
  an argument is exit status 0), or an exception is not caught (the interpreter prints a
  traceback and the exit status is 1).
\<close>

datatype ending = Finished | SysExit nat | Uncaught error

fun exit_status :: "ending \<Rightarrow> nat" where
  "exit_status Finished = 0"
| "exit_status (SysExit n) = n"
| "exit_status (Uncaught e) = 1"

fun traceback :: "ending \<Rightarrow> bool" where
  "traceback (Uncaught e) = True"
| "traceback _ = False"

record run_result =
  printed :: "string list"
  files :: "outfile list"
  ending :: ending

text \<open>Lines 186 to 193: the correction marker and the two steps.\<close>

definition sniff :: "(string \<Rightarrow> rat option) \<Rightarrow> string list \<Rightarrow> error + (bool \<times> rat \<times> rat)" where
  "sniff fl content =
     (if length content \<le> 2 then Inl IndexError
      else case split_ws (content ! 2) of
             [] \<Rightarrow> Inl IndexError
           | t # _ \<Rightarrow>
               (let corr = (take 4 t = ''LMAX'')
                in if length content \<le> 3 then Inl IndexError
                   else if length (split_ws (content ! 3)) \<le> 1 then Inl IndexError
                   else (case fl (split_ws (content ! 3) ! 1) of
                           None \<Rightarrow> Inl ValueError
                         | Some step_polar \<Rightarrow>
                             if length (split_ws (content ! 3)) \<le> 2 then Inl IndexError
                             else (case fl (split_ws (content ! 3) ! 2) of
                                     None \<Rightarrow> Inl ValueError
                                   | Some step_azimuthal \<Rightarrow>
                                       Inr (corr, step_polar, step_azimuthal)))))"

text \<open>
  One pass of lines 205 to 210 or 214 to 218: locate, extract, write.  It returns the data
  frame, the files written and the exception that stopped the pass, if any.
\<close>

definition run_pass ::
  "(string \<Rightarrow> rat option) \<Rightarrow> string \<Rightarrow> int \<Rightarrow> string list \<Rightarrow> rat \<Rightarrow> rat \<Rightarrow> dataframe \<Rightarrow> bool
     \<Rightarrow> dataframe \<times> outfile list \<times> error option" where
  "run_pass fl infile n_pfs content step_polar step_azimuthal pfs_df corr_data =
     (case get_meta_data n_pfs pfs_df content (fmt_fixed 2 step_polar) (fmt_fixed 2 step_azimuthal)
             step_polar step_azimuthal corr_data of
        Inl e \<Rightarrow> (pfs_df, [], Some e)
      | Inr df \<Rightarrow>
          (case get_intensities fl content n_pfs df step_polar step_azimuthal 8 corr_data of
             Inl e \<Rightarrow> (df, [], Some e)
           | Inr ints \<Rightarrow>
               (df, write_intensities_to_file ints df infile step_polar step_azimuthal corr_data)))"

text \<open>
  Lines 177 to 218, for the input file name, the pole-figure count (line 35 has converted it
  to an integer) and the lines of the file as \<open>readlines\<close> returns them.
\<close>

definition run :: "(string \<Rightarrow> rat option) \<Rightarrow> string \<Rightarrow> int \<Rightarrow> string list \<Rightarrow> run_result" where
  "run fl infile n_pfs content =
     (if \<not> endswith infile ''.RES'' \<and> \<not> endswith infile ''.res''
      then \<lparr>printed = [''Error: The input file must be a RES file.'' @ [CHR 0x0A]], files = [],
            ending = SysExit 0\<rparr>
      else case sniff fl content of
             Inl e \<Rightarrow> \<lparr>printed = [], files = [], ending = Uncaught e\<rparr>
           | Inr (corr, step_polar, step_azimuthal) \<Rightarrow>
               (case run_pass fl infile n_pfs content step_polar step_azimuthal (new_df n_pfs) False of
                  (df, fs, Some e) \<Rightarrow> \<lparr>printed = [], files = fs, ending = Uncaught e\<rparr>
                | (df, fs, None) \<Rightarrow>
                    if corr
                    then (case run_pass fl infile n_pfs content step_polar step_azimuthal df True of
                            (df', fs', Some e) \<Rightarrow> \<lparr>printed = [], files = fs @ fs', ending = Uncaught e\<rparr>
                          | (df', fs', None) \<Rightarrow> \<lparr>printed = [], files = fs @ fs', ending = Finished\<rparr>)
                    else \<lparr>printed = [], files = fs, ending = Finished\<rparr>))"

section \<open>Reading a written table back\<close>

text \<open>
  The script has no reader.  The functions below read plain decimal numerals and the rows
  that \<open>np.savetxt\<close> wrote, so that what was written can be compared with the grid.
  \<open>read_decimal\<close> also stands for \<open>float\<close> in the examples: on a numeral made of an optional
  minus sign, digits and at most one point it returns the number that \<open>float\<close> returns.
\<close>

definition digit_val :: "char \<Rightarrow> nat option" where
  "digit_val c =
     map_of [(CHR ''0'', 0), (CHR ''1'', 1), (CHR ''2'', 2), (CHR ''3'', 3), (CHR ''4'', 4),
             (CHR ''5'', 5), (CHR ''6'', 6), (CHR ''7'', 7), (CHR ''8'', 8), (CHR ''9'', 9)] c"

fun digits_val :: "nat \<Rightarrow> string \<Rightarrow> nat option" where
  "digits_val acc [] = Some acc"
| "digits_val acc (c # cs) =
     (case digit_val c of None \<Rightarrow> None | Some d \<Rightarrow> digits_val (10 * acc + d) cs)"

definition read_nat :: "string \<Rightarrow> nat option" where
  "read_nat s = (if s = [] then None else digits_val 0 s)"

definition read_int :: "string \<Rightarrow> int option" where
  "read_int s =
     (case s of
        [] \<Rightarrow> None
      | c # t \<Rightarrow> if c = CHR ''-'' then map_option (\<lambda>n. - int n) (read_nat t)
                 else map_option int (read_nat s))"

definition read_unsigned_decimal :: "string \<Rightarrow> rat option" where
  "read_unsigned_decimal s =
     (let ip = takeWhile (\<lambda>c. c \<noteq> CHR ''.'') s;
          rest = dropWhile (\<lambda>c. c \<noteq> CHR ''.'') s
      in case rest of
           [] \<Rightarrow> map_option of_nat (read_nat ip)
         | _ # fp \<Rightarrow>
             (case read_nat ip of
                None \<Rightarrow> None
              | Some a \<Rightarrow>
                  (case read_nat fp of
                     None \<Rightarrow> None
                   | Some b \<Rightarrow> Some (of_nat a + of_nat b / 10 ^ length fp))))"

definition read_decimal :: "string \<Rightarrow> rat option" where
  "read_decimal s =
     (case s of
        [] \<Rightarrow> None
      | c # t \<Rightarrow> if c = CHR ''-'' then map_option uminus (read_unsigned_decimal t)
                 else read_unsigned_decimal s)"

definition read_row :: "string \<Rightarrow> (int \<times> int \<times> rat) option" where
  "read_row line =
     (case split_ws line of
        [a, b, c] \<Rightarrow>
          (case read_int a of
             None \<Rightarrow> None
           | Some p \<Rightarrow>
               (case read_int b of
                  None \<Rightarrow> None
                | Some q \<Rightarrow>
                    (case read_decimal c of
                       None \<Rightarrow> None
                     | Some v \<Rightarrow> Some (p, q, v))))
      | _ \<Rightarrow> None)"

text \<open>An array with \<open>n1\<close> rings of \<open>n2\<close> columns, as every plane of a numpy array is.\<close>

definition is_array :: "nat \<Rightarrow> nat \<Rightarrow> rat list list \<Rightarrow> bool" where
  "is_array n1 n2 g \<longleftrightarrow> length g = n1 \<and> list_all (\<lambda>row. length row = n2) g"

text \<open>The offsets recorded by a pass of \<open>get_meta_data\<close>, row by row.\<close>

definition offsets :: "bool \<Rightarrow> error + dataframe \<Rightarrow> nat option list" where
  "offsets corr_data res = (case res of Inl e \<Rightarrow> [] | Inr df \<Rightarrow> map (head_pos_of corr_data) df)"

section \<open>Notions used to state the results\<close>

text \<open>
  \<open>place i toks row\<close> is \<open>row\<close> with the values \<open>toks\<close> written from column \<open>i\<close> on, as far as
  the row reaches.  \<open>block_tokens content j ks\<close> are the tokens of the lines \<open>j + k\<close> for the
  \<open>k\<close> in \<open>ks\<close>, in order.
\<close>

definition place :: "nat \<Rightarrow> rat list \<Rightarrow> rat list \<Rightarrow> rat list" where
  "place i toks row =
     map (\<lambda>x. if i \<le> x \<and> x < i + length toks then toks ! (x - i) else row ! x) [0..<length row]"

definition block_tokens :: "string list \<Rightarrow> nat \<Rightarrow> nat list \<Rightarrow> string list" where
  "block_tokens content j ks = concat (map (\<lambda>k. split_ws (content ! (j + k))) ks)"

text \<open>The built-in exceptions.\<close>

definition builtin :: "error \<Rightarrow> bool" where
  "builtin e \<longleftrightarrow> e = IndexError \<or> e = ValueError \<or> e = TypeError \<or> e = ZeroDivisionError"

section \<open>Example inputs\<close>

text \<open>A file in which the header line of plane 111 occurs twice, and the data frame located in it.\<close>

definition ex_dup :: "string list" where
  "ex_dup = ['' 111       5.00   72    0 5.00   16    0'' @ [CHR 0x0A], ''x'',
             '' 111       5.00   72    0 5.00   16    0'' @ [CHR 0x0A]]"

definition ex_dup_df :: dataframe where
  "ex_dup_df = [\<lparr>plane = ''111'', uncorr_head = Some '' 111       5.00   72    0 5.00   16    0'',
           uncorr_head_pos = Some 2, corr_head = None, corr_head_pos = None\<rparr>]"

text \<open>
  A file with one ring of two cells for plane 111 (steps 80 and 180 degrees) whose block
  holds a single value.
\<close>

definition ex_short :: "string list" where
  "ex_short = ['' 111       180.00   2    0 80.00   1    0'', ''1.5'', '''', '''', '''', '''', '''',
               '''', '''']"

text \<open>Four metadata lines with the correction marker and steps of 5 degrees, and nothing else.\<close>

definition ex_meta :: "string list" where
  "ex_meta = [''TEXEVAL'', ''sample'', ''LMAX 22'', ''STEP 5.00 5.00'']"

text \<open>A file for plane 111 with a polar step of 60 degrees: header, then one block of 8 lines.\<close>

definition ex_step60 :: "string list" where
  "ex_step60 = ['' 111       180.00   2    0 60.00   1    0'', ''1.5 2.5'', '''', '''', '''', '''',
                '''', '''', '''']"

text \<open>The data frame that \<open>get_meta_data\<close> returns for \<open>ex_short\<close>.\<close>

definition ex_short_df :: dataframe where
  "ex_short_df = [\<lparr>plane = ''111'', uncorr_head = Some '' 111       180.00   2    0 80.00   1    0'',
           uncorr_head_pos = Some 0, corr_head = None, corr_head_pos = None\<rparr>]"

text \<open>
  A file with the correction marker, steps of 10 and 180 degrees, and the uncorrected data of
  plane 111 only (8 rings of 2 cells); no line carries the corrected header.
\<close>

definition ex_no_corr :: "string list" where
  "ex_no_corr =
     [''TEXEVAL'', ''sample'', ''LMAX 22'', ''STEP 10.00 180.00'',
      '' 111       180.00   2    0 10.00   8    0'']
     @ concat (replicate 8 (''1.5 2.5'' # replicate 7 ''''))"

section \<open>Facts about the data frame and the scan\<close>

lemma head_of_set_head_pos [simp]: "head_of c (set_head_pos c' n r) = head_of c r"
  by (simp add: head_of_def set_head_pos_def)

lemma plane_set_head_pos [simp]: "plane (set_head_pos c n r) = plane r"
  by (simp add: set_head_pos_def)

lemma head_pos_of_set_head_pos [simp]:
  "head_pos_of c (set_head_pos c' n r) = (if c = c' then Some n else head_pos_of c r)"
  by (auto simp add: head_pos_of_def set_head_pos_def)

lemma head_of_set_head [simp]:
  "head_of c (set_head c' s r) = (if c = c' then Some s else head_of c r)"
  by (auto simp add: head_of_def set_head_def)

lemma plane_set_head [simp]: "plane (set_head c s r) = plane r"
  by (simp add: set_head_def)

lemma head_pos_of_set_head [simp]: "head_pos_of c (set_head c' s r) = head_pos_of c r"
  by (simp add: head_pos_of_def set_head_def)

lemma length_mark_first [simp]: "length (mark_first c l n df) = length df"
  by (induction df) auto

lemma map_head_of_mark_first [simp]: "map (head_of c') (mark_first c l n df) = map (head_of c') df"
  by (induction df) auto

lemma map_plane_mark_first [simp]: "map plane (mark_first c l n df) = map plane df"
  by (induction df) auto

lemma head_pos_other_mark_first:
  "c' \<noteq> c \<Longrightarrow> map (head_pos_of c') (mark_first c l n df) = map (head_pos_of c') df"
  by (induction df) auto

lemma mark_first_no_match:
  "Some l \<notin> set (map (head_of c) df) \<Longrightarrow> mark_first c l n df = df"
  by (induction df) auto

lemma mark_first_nth:
  assumes "\<forall>j<i. head_of c (df ! j) \<noteq> head_of c (df ! i)" "i < length df"
  shows "head_pos_of c (mark_first c l n df ! i) =
           (if head_of c (df ! i) = Some l then Some n else head_pos_of c (df ! i))"
  using assms
proof (induction df arbitrary: i)
  case Nil
  then show ?case by simp
next
  case (Cons r rs)
  show ?case
  proof (cases i)
    case 0
    then show ?thesis by simp
  next
    case (Suc m)
    have a: "\<forall>j<m. head_of c (rs ! j) \<noteq> head_of c (rs ! m)"
      using Cons.prems(1) Suc by auto
    have b: "head_of c r \<noteq> head_of c (rs ! m)"
      using Cons.prems(1) Suc by auto
    have m: "m < length rs" using Cons.prems(2) Suc by simp
    show ?thesis
      using Cons.IH [OF a m] b Suc by auto
  qed
qed

lemma length_scan [simp]: "length (scan c n content df) = length df"
  by (induction content arbitrary: n df) auto

lemma map_head_of_scan [simp]: "map (head_of c') (scan c n content df) = map (head_of c') df"
  by (induction content arbitrary: n df) auto

lemma map_plane_scan [simp]: "map plane (scan c n content df) = map plane df"
  by (induction content arbitrary: n df) auto

lemma head_pos_other_scan:
  "c' \<noteq> c \<Longrightarrow> map (head_pos_of c') (scan c n content df) = map (head_pos_of c') df"
  by (induction content arbitrary: n df) (auto simp: head_pos_other_mark_first)


lemma head_of_mark_first_nth [simp]:
  "j < length df \<Longrightarrow> head_of c' (mark_first c l n df ! j) = head_of c' (df ! j)"
  by (metis length_mark_first map_head_of_mark_first nth_map)

lemma head_of_scan_nth [simp]:
  "j < length df \<Longrightarrow> head_of c' (scan c n content df ! j) = head_of c' (df ! j)"
  by (metis length_scan map_head_of_scan nth_map)

lemma plane_scan_nth [simp]:
  "j < length df \<Longrightarrow> plane (scan c n content df ! j) = plane (df ! j)"
  by (metis length_scan map_plane_scan nth_map)

lemma head_pos_other_scan_nth:
  "c' \<noteq> c \<Longrightarrow> j < length df \<Longrightarrow> head_pos_of c' (scan c n content df ! j) = head_pos_of c' (df ! j)"
  by (metis length_scan head_pos_other_scan nth_map)

lemma mark_first_nth_other:
  "i < length df \<Longrightarrow> head_of c (df ! i) \<noteq> Some l \<Longrightarrow> mark_first c l n df ! i = df ! i"
proof (induction df arbitrary: i)
  case Nil
  then show ?case by simp
next
  case (Cons r rs)
  then show ?case by (cases i) auto
qed

lemma scan_no_match:
  assumes "i < length df" "\<forall>line \<in> set content. head_of c (df ! i) \<noteq> Some (rstrip line)"
  shows "scan c n content df ! i = df ! i"
  using assms
proof (induction content arbitrary: n df)
  case Nil
  then show ?case by simp
next
  case (Cons line rest)
  let ?df1 = "mark_first c (rstrip line) (n + 1 - 1) df"
  have same: "?df1 ! i = df ! i"
    using Cons.prems by (intro mark_first_nth_other) auto
  have "scan c (n + 1) rest ?df1 ! i = ?df1 ! i"
    using Cons.prems same by (intro Cons.IH) auto
  with same show ?case by simp
qed

lemma scan_last_match:
  assumes "\<forall>j<i. head_of c (df ! j) \<noteq> head_of c (df ! i)" "i < length df"
    and "k < length content" "head_of c (df ! i) = Some (rstrip (content ! k))"
    and "\<forall>k'. k < k' \<and> k' < length content \<longrightarrow> rstrip (content ! k') \<noteq> rstrip (content ! k)"
  shows "head_pos_of c (scan c n content df ! i) = Some (n + k)"
  using assms
proof (induction content arbitrary: n df k)
  case Nil
  then show ?case by simp
next
  case (Cons line rest)
  let ?df1 = "mark_first c (rstrip line) (n + 1 - 1) df"
  have len: "i < length ?df1" using Cons.prems(2) by simp
  have dist: "\<forall>j<i. head_of c (?df1 ! j) \<noteq> head_of c (?df1 ! i)"
    using Cons.prems(1,2) by simp
  show ?case
  proof (cases k)
    case 0
    have pos: "head_pos_of c (?df1 ! i) = Some n"
      using mark_first_nth [OF Cons.prems(1,2), of "rstrip line" "n + 1 - 1"] Cons.prems(4) 0
      by simp
    have nomatch: "\<forall>l \<in> set rest. head_of c (?df1 ! i) \<noteq> Some (rstrip l)"
    proof
      fix l assume "l \<in> set rest"
      then obtain m where m: "m < length rest" "rest ! m = l"
        by (auto simp: in_set_conv_nth)
      have "rstrip ((line # rest) ! Suc m) \<noteq> rstrip ((line # rest) ! k)"
        using Cons.prems(5) m(1) 0 by auto
      then show "head_of c (?df1 ! i) \<noteq> Some (rstrip l)"
        using Cons.prems(2,4) m(2) by simp
    qed
    have "scan c (n + 1) rest ?df1 ! i = ?df1 ! i"
      using scan_no_match [OF len nomatch] .
    with pos 0 show ?thesis by simp
  next
    case (Suc k')
    have k': "k' < length rest" using Cons.prems(3) Suc by simp
    have hd: "head_of c (?df1 ! i) = Some (rstrip (rest ! k'))"
      using Cons.prems(2,4) Suc by simp
    have later: "\<forall>m. k' < m \<and> m < length rest \<longrightarrow> rstrip (rest ! m) \<noteq> rstrip (rest ! k')"
    proof (intro allI impI)
      fix m assume "k' < m \<and> m < length rest"
      then have "rstrip ((line # rest) ! Suc m) \<noteq> rstrip ((line # rest) ! k)"
        using Cons.prems(5) Suc by auto
      then show "rstrip (rest ! m) \<noteq> rstrip (rest ! k')" using Suc by simp
    qed
    have "head_pos_of c (scan c (n + 1) rest ?df1 ! i) = Some (n + 1 + k')"
      using Cons.IH [OF dist len k' hd later] .
    with Suc show ?thesis by simp
  qed
qed

subsection \<open>The header loop\<close>

lemma head_loop_length:
  "head_loop c sps sas sp sa is df = Inr df' \<Longrightarrow> length df' = length df"
  by (induction "is" arbitrary: df) (auto split: if_splits sum.splits)

lemma head_loop_plane:
  "head_loop c sps sas sp sa is df = Inr df' \<Longrightarrow> map plane df' = map plane df"
proof (induction "is" arbitrary: df)
  case Nil
  then show ?case by simp
next
  case (Cons i "is")
  then show ?case
    by (auto split: if_splits sum.splits simp: map_update list_update_same_conv)
qed

lemma head_loop_head_pos:
  "head_loop c sps sas sp sa is df = Inr df' \<Longrightarrow> map (head_pos_of c') df' = map (head_pos_of c') df"
proof (induction "is" arbitrary: df)
  case Nil
  then show ?case by simp
next
  case (Cons i "is")
  then show ?case
    by (auto split: if_splits sum.splits simp: map_update list_update_same_conv)
qed

lemma head_loop_head_other:
  "head_loop c sps sas sp sa is df = Inr df' \<Longrightarrow> c' \<noteq> c \<Longrightarrow> map (head_of c') df' = map (head_of c') df"
proof (induction "is" arbitrary: df)
  case Nil
  then show ?case by simp
next
  case (Cons i "is")
  then show ?case
    by (auto split: if_splits sum.splits simp: map_update list_update_same_conv)
qed

lemma head_loop_head:
  assumes "head_loop c sps sas sp sa is df = Inr df'" "i < length df"
  shows "head_of c (df' ! i) =
           (if i \<in> set is then
              (case header_signature c (plane (df ! i)) sps sas sp sa of Inr s \<Rightarrow> Some s | Inl e \<Rightarrow> None)
            else head_of c (df ! i))"
  using assms
proof (induction "is" arbitrary: df)
  case Nil
  then show ?case by simp
next
  case (Cons a "is")
  from Cons.prems(1) obtain s where
    a: "a < length df" and s: "header_signature c (plane (df ! a)) sps sas sp sa = Inr s"
    and rest: "head_loop c sps sas sp sa is (df[a := set_head c s (df ! a)]) = Inr df'"
    by (auto split: if_splits sum.splits)
  let ?df1 = "df[a := set_head c s (df ! a)]"
  have pl: "plane (?df1 ! i) = plane (df ! i)"
    using Cons.prems(2) by (cases "i = a") auto
  have IH: "head_of c (df' ! i) =
           (if i \<in> set is then
              (case header_signature c (plane (?df1 ! i)) sps sas sp sa of Inr s \<Rightarrow> Some s | Inl e \<Rightarrow> None)
            else head_of c (?df1 ! i))"
    using Cons.IH [OF rest] Cons.prems(2) by simp
  show ?case
    using IH pl s a Cons.prems(2) by (cases "i = a") auto
qed


lemma head_loop_out_of_range:
  assumes "\<exists>i \<in> set is. length df \<le> i"
  shows "\<exists>e. head_loop c sps sas sp sa is df = Inl e \<and>
           (e = IndexError \<or> e = ZeroDivisionError \<and> (sp = 0 \<or> sa = 0))"
  using assms
proof (induction "is" arbitrary: df)
  case Nil
  then show ?case by simp
next
  case (Cons a "is")
  show ?case
  proof (cases "length df \<le> a")
    case True
    then show ?thesis by simp
  next
    case False
    show ?thesis
    proof (cases "header_signature c (plane (df ! a)) sps sas sp sa")
      case (Inl e)
      then show ?thesis using False by (auto simp: header_signature_def split: if_splits)
    next
      case (Inr s)
      have "\<exists>i \<in> set is. length (df[a := set_head c s (df ! a)]) \<le> i"
        using Cons.prems False by auto
      from Cons.IH [OF this] show ?thesis using False Inr by simp
    qed
  qed
qed

lemma header_signature_inj:
  assumes "header_signature c p sps sas sp sa = Inr s" "header_signature c p' sps sas sp sa = Inr s"
  shows "p = p'"
proof -
  from assms have "ljust_empty 1 @ p @ ljust_empty 7
            @ sas @ ljust_empty 3 @ str_int (py_int (360 / sa))
            @ ljust_empty 4 @ str_int 0 @ ljust_empty 1 @ sps
            @ ljust_empty 3 @ str_int (py_int (polar_max_of c / sp)) @ ljust_empty 4
            @ str_int 0 = ljust_empty 1 @ p' @ ljust_empty 7
            @ sas @ ljust_empty 3 @ str_int (py_int (360 / sa))
            @ ljust_empty 4 @ str_int 0 @ ljust_empty 1 @ sps
            @ ljust_empty 3 @ str_int (py_int (polar_max_of c / sp)) @ ljust_empty 4
            @ str_int 0"
    by (auto simp: header_signature_def split: if_splits)
  then show ?thesis by simp
qed

lemma head_loop_steps:
  "head_loop c sps sas sp sa is df = Inr df' \<Longrightarrow> is \<noteq> [] \<Longrightarrow> sp \<noteq> 0 \<and> sa \<noteq> 0"
  by (cases "is") (auto simp: header_signature_def split: if_splits sum.splits)

lemma get_meta_data_rows:
  assumes "get_meta_data n_pfs pfs_df content sps sas sp sa c = Inr df" "i < nat n_pfs"
  shows "i < length pfs_df" "length df = length pfs_df"
    "head_of c (df ! i) = (case header_signature c (plane (pfs_df ! i)) sps sas sp sa of Inr s \<Rightarrow> Some s | Inl e \<Rightarrow> None)"
    "header_signature c (plane (pfs_df ! i)) sps sas sp sa \<noteq> Inl e"
proof -
  from assms(1) obtain df0 where
    df0: "head_loop c sps sas sp sa [0..<nat n_pfs] pfs_df = Inr df0"
    and df: "df = scan c 0 content df0"
    by (auto simp: get_meta_data_def split: sum.splits)
  show i: "i < length pfs_df"
  proof (rule ccontr)
    assume "\<not> i < length pfs_df"
    then have "\<exists>i \<in> set [0..<nat n_pfs]. length pfs_df \<le> i" using assms(2) by auto
    then have "\<exists>e. head_loop c sps sas sp sa [0..<nat n_pfs] pfs_df = Inl e \<and>
           (e = IndexError \<or> e = ZeroDivisionError \<and> (sp = 0 \<or> sa = 0))"
      by (rule head_loop_out_of_range)
    with df0 show False by auto
  qed
  have len0: "length df0 = length pfs_df" using head_loop_length [OF df0] .
  show "length df = length pfs_df" using df len0 by simp
  have h0: "head_of c (df0 ! i) = (case header_signature c (plane (pfs_df ! i)) sps sas sp sa of Inr s \<Rightarrow> Some s | Inl e \<Rightarrow> None)"
    using head_loop_head [OF df0 i] assms(2) by simp
  show "head_of c (df ! i) = (case header_signature c (plane (pfs_df ! i)) sps sas sp sa of Inr s \<Rightarrow> Some s | Inl e \<Rightarrow> None)"
    using h0 df i len0 by simp
  show "header_signature c (plane (pfs_df ! i)) sps sas sp sa \<noteq> Inl e"
    using head_loop_steps [OF df0] assms(2) by (auto simp: header_signature_def)
qed

lemma ex_dup_meta:
  "get_meta_data 1 (new_df 1) ex_dup ''5.00'' ''5.00'' 5 5 False =
     Inr [\<lparr>plane = ''111'', uncorr_head = Some '' 111       5.00   72    0 5.00   16    0'',
           uncorr_head_pos = Some 2, corr_head = None, corr_head_pos = None\<rparr>]"
  by code_simp

section \<open>The extension check\<close>

text \<open>
  C8 (as amended).  For every input path that ends in neither \<open>.RES\<close> nor \<open>.res\<close> the run
  prints the message of line 178, writes no file, shows no traceback and ends through
  \<open>sys.exit()\<close>, whose exit status is 0.
\<close>

theorem invalid_extension_exits_with_status_zero:
  assumes "\<not> endswith infile ''.RES''" "\<not> endswith infile ''.res''"
  shows "run fl infile n_pfs content =
           \<lparr>printed = [''Error: The input file must be a RES file.'' @ [CHR 0x0A]], files = [],
            ending = SysExit 0\<rparr> \<and>
         \<not> traceback (ending (run fl infile n_pfs content)) \<and>
         exit_status (ending (run fl infile n_pfs content)) = 0"
  using assms by (simp add: run_def)

theorem invalid_extension_witness:
  "\<not> endswith ''data.txt'' ''.RES'' \<and> \<not> endswith ''data.txt'' ''.res'' \<and>
   files (run read_decimal ''data.txt'' 4 []) = [] \<and>
   ending (run read_decimal ''data.txt'' 4 []) = SysExit 0"
proof -
  have a: "\<not> endswith ''data.txt'' ''.RES''" by (simp add: endswith_def)
  have b: "\<not> endswith ''data.txt'' ''.res''" by (simp add: endswith_def)
  show ?thesis
    using a b invalid_extension_exits_with_status_zero [OF a b, of read_decimal 4 "[]"] by simp
qed

text \<open>
  C8 as stated fails: for \<open>data.txt\<close> the exit status is not different from zero.
\<close>

theorem invalid_extension_nonzero_status_counterexample:
  "\<not> endswith ''data.txt'' ''.RES'' \<and> \<not> endswith ''data.txt'' ''.res'' \<and>
   \<not> exit_status (ending (run read_decimal ''data.txt'' 4 [])) \<noteq> 0"
  by (simp add: run_def endswith_def)

section \<open>The header locator\<close>

text \<open>
  C5 (as amended).  In the scan of \<open>get_meta_data\<close>, for every requested plane whose
  signature is matched by a line, the recorded offset is the 1-based number of the last
  matching line minus 1: the \<open>break\<close> of line 81 leaves the loop over the planes only, so a
  later matching line overwrites the offset of an earlier one.
\<close>

theorem last_matching_line_wins:
  assumes "get_meta_data n_pfs pfs_df content sps sas sp sa corr_data = Inr df"
    and "distinct (map plane pfs_df)"
    and "i < nat n_pfs"
    and "k < length content"
    and "header_signature corr_data (plane (pfs_df ! i)) sps sas sp sa = Inr (rstrip (content ! k))"
    and "\<forall>k'. k < k' \<and> k' < length content \<longrightarrow> rstrip (content ! k') \<noteq> rstrip (content ! k)"
  shows "head_pos_of corr_data (df ! i) = Some ((k + 1) - 1)"
proof -
  from assms(1) obtain df0 where
    df0: "head_loop corr_data sps sas sp sa [0..<nat n_pfs] pfs_df = Inr df0"
    and df: "df = scan corr_data 0 content df0"
    by (auto simp: get_meta_data_def split: sum.splits)
  have i: "i < length pfs_df" using get_meta_data_rows(1) [OF assms(1,3)] .
  have len0: "length df0 = length pfs_df" using head_loop_length [OF df0] .
  have hi: "head_of corr_data (df0 ! i) = Some (rstrip (content ! k))"
    using head_loop_head [OF df0 i] assms(3,5) by simp
  have dist: "\<forall>j<i. head_of corr_data (df0 ! j) \<noteq> head_of corr_data (df0 ! i)"
  proof (intro allI impI)
    fix j assume j: "j < i"
    then have jl: "j < length pfs_df" and jn: "j < nat n_pfs" using i assms(3) by auto
    have ne: "plane (pfs_df ! j) \<noteq> plane (pfs_df ! i)"
      using assms(2) j i jl by (simp add: distinct_conv_nth)
    have hj: "head_of corr_data (df0 ! j) =
        (case header_signature corr_data (plane (pfs_df ! j)) sps sas sp sa of Inr s \<Rightarrow> Some s | Inl e \<Rightarrow> None)"
      using head_loop_head [OF df0 jl] jn by simp
    show "head_of corr_data (df0 ! j) \<noteq> head_of corr_data (df0 ! i)"
    proof
      assume "head_of corr_data (df0 ! j) = head_of corr_data (df0 ! i)"
      with hj hi have "header_signature corr_data (plane (pfs_df ! j)) sps sas sp sa = Inr (rstrip (content ! k))"
        by (auto split: sum.splits)
      from header_signature_inj [OF this assms(5)] ne show False by simp
    qed
  qed
  have "head_pos_of corr_data (scan corr_data 0 content df0 ! i) = Some (0 + k)"
    using scan_last_match [OF dist _ assms(4) hi assms(6)] i len0 by simp
  with df show ?thesis by simp
qed

theorem last_matching_line_wins_witness:
  "get_meta_data 1 (new_df 1) ex_dup ''5.00'' ''5.00'' 5 5 False = Inr ex_dup_df \<and>
   header_signature False (plane (new_df 1 ! 0)) ''5.00'' ''5.00'' 5 5 = Inr (rstrip (ex_dup ! 0)) \<and>
   header_signature False (plane (new_df 1 ! 0)) ''5.00'' ''5.00'' 5 5 = Inr (rstrip (ex_dup ! 2)) \<and>
   head_pos_of False (ex_dup_df ! 0) = Some (2 + 1 - 1)"
proof -
  have m: "get_meta_data 1 (new_df 1) ex_dup ''5.00'' ''5.00'' 5 5 False = Inr ex_dup_df"
    by code_simp
  have d: "distinct (map plane (new_df 1))" by code_simp
  have i: "(0::nat) < nat 1" by simp
  have k: "(2::nat) < length ex_dup" by code_simp
  have s0: "header_signature False (plane (new_df 1 ! 0)) ''5.00'' ''5.00'' 5 5 = Inr (rstrip (ex_dup ! 0))"
    by code_simp
  have s: "header_signature False (plane (new_df 1 ! 0)) ''5.00'' ''5.00'' 5 5 = Inr (rstrip (ex_dup ! 2))"
    by code_simp
  have l: "\<forall>k'. 2 < k' \<and> k' < length ex_dup \<longrightarrow> rstrip (ex_dup ! k') \<noteq> rstrip (ex_dup ! 2)"
    by (auto simp: ex_dup_def)
  from last_matching_line_wins [OF m d i k s l] m s0 s show ?thesis by simp
qed

text \<open>
  C5 as stated fails: in \<open>ex_dup\<close> lines 1 and 3 carry the signature of plane 111; the first
  match would give offset 0, the script records 2.
\<close>

theorem first_match_counterexample:
  "header_signature False ''111'' ''5.00'' ''5.00'' 5 5 = Inr (rstrip (ex_dup ! 0)) \<and>
   offsets False (get_meta_data 1 (new_df 1) ex_dup ''5.00'' ''5.00'' 5 5 False) = [Some 2] \<and>
   offsets False (get_meta_data 1 (new_df 1) ex_dup ''5.00'' ''5.00'' 5 5 False) \<noteq> [Some (1 - 1)]"
  by code_simp



section \<open>Facts about the grid extractor\<close>

lemma length_place [simp]: "length (place i toks row) = length row"
  by (simp add: place_def)

lemma place_nth:
  "x < length row \<Longrightarrow>
   place i toks row ! x = (if i \<le> x \<and> x < i + length toks then toks ! (x - i) else row ! x)"
  by (simp add: place_def)

lemma place_Nil [simp]: "place i [] row = row"
  by (rule nth_equalityI) (simp_all add: place_nth)

lemma place_place: "place (i + length a) b (place i a row) = place i (a @ b) row"
  by (rule nth_equalityI) (auto simp: place_nth nth_append)

lemma place_zeros: "place 0 toks (replicate n 0) = take n (toks @ replicate n 0)"
  by (rule nth_equalityI) (auto simp: place_nth nth_append)

lemma set_slice_success:
  assumes "set_slice i ints row = Inr row'"
  shows "row' = place i ints row"
proof (cases "min (i + length ints) (length row) - min i (length row) = length ints")
  case True
  then have row': "row' = take (min i (length row)) row @ ints @ drop (min (i + length ints) (length row)) row"
    using assms by (simp add: set_slice_def Let_def)
  show ?thesis
  proof (cases "ints = []")
    case True
    then show ?thesis using row' by simp
  next
    case False
    then have fit: "i + length ints \<le> length row"
      using True by (cases "i + length ints \<le> length row") (auto simp: min_def split: if_splits)
    then have "row' = take i row @ ints @ drop (i + length ints) row"
      using row' by (simp add: min_def)
    then show ?thesis
      using fit by (intro nth_equalityI) (auto simp: place_nth nth_append)
  qed
next
  case False
  then have one: "length ints = 1"
    and row': "row' = take (min i (length row)) row
                 @ replicate (min (i + 1) (length row) - min i (length row)) (hd ints)
                 @ drop (min (i + 1) (length row)) row"
    using assms by (auto simp: set_slice_def Let_def split: if_splits)
  from False one have out: "length row \<le> i" by (auto simp: min_def split: if_splits)
  then have "row' = row" using row' by (simp add: min_def)
  moreover have "place i ints row = row"
    using out by (intro nth_equalityI) (auto simp: place_nth)
  ultimately show ?thesis by simp
qed

lemma set_slice_error: "set_slice i ints row = Inl e \<Longrightarrow> e = ValueError"
  by (auto simp: set_slice_def Let_def split: if_splits)

lemma parse_tokens_error: "parse_tokens fl ts = Inl e \<Longrightarrow> e = ValueError"
  by (induction ts arbitrary: e) (auto split: option.splits sum.splits)

lemma parse_tokens_length: "parse_tokens fl ts = Inr vs \<Longrightarrow> length vs = length ts"
  by (induction ts arbitrary: vs) (auto split: option.splits sum.splits)

lemma parse_tokens_append:
  "parse_tokens fl (a @ b) =
     (case parse_tokens fl a of
        Inl e \<Rightarrow> Inl e
      | Inr va \<Rightarrow> (case parse_tokens fl b of Inl e \<Rightarrow> Inl e | Inr vb \<Rightarrow> Inr (va @ vb)))"
  by (induction a) (auto split: option.splits sum.splits)

lemma block_tokens_Nil [simp]: "block_tokens content j [] = []"
  by (simp add: block_tokens_def)

lemma block_tokens_Cons [simp]:
  "block_tokens content j (k # ks) = split_ws (content ! (j + k)) @ block_tokens content j ks"
  by (simp add: block_tokens_def)

lemma block_loop_success:
  assumes "block_loop fl content j ks i_pa i_pf g = Inr g'"
  shows "\<exists>toks. parse_tokens fl (block_tokens content j ks) = Inr toks \<and>
           g' = g[i_pa := place i_pf toks (g ! i_pa)]"
  using assms
proof (induction ks arbitrary: i_pf g)
  case Nil
  then show ?case by simp
next
  case (Cons k ks)
  from Cons.prems obtain ints row where
    ints: "parse_tokens fl (split_ws (content ! (j + k))) = Inr ints"
    and i_pa: "i_pa < length g"
    and row: "set_slice i_pf ints (g ! i_pa) = Inr row"
    and rest: "block_loop fl content j ks i_pa (i_pf + length ints) (g[i_pa := row]) = Inr g'"
    by (auto simp: Let_def split: if_splits sum.splits)
  from Cons.IH [OF rest] obtain toks where
    toks: "parse_tokens fl (block_tokens content j ks) = Inr toks"
    and g': "g' = (g[i_pa := row])[i_pa := place (i_pf + length ints) toks (g[i_pa := row] ! i_pa)]"
    by blast
  have "row = place i_pf ints (g ! i_pa)" using set_slice_success [OF row] .
  then have "g' = g[i_pa := place i_pf (ints @ toks) (g ! i_pa)]"
    using g' i_pa by (simp add: place_place)
  moreover have "parse_tokens fl (block_tokens content j (k # ks)) = Inr (ints @ toks)"
    using ints toks by (simp add: parse_tokens_append)
  ultimately show ?case by blast
qed

lemma block_loop_index:
  "block_loop fl content j ks i_pa i_pf g = Inr g' \<Longrightarrow> ks \<noteq> [] \<Longrightarrow> i_pa < length g"
  by (cases ks) (auto simp: Let_def split: if_splits sum.splits)

lemma block_loop_lines:
  "block_loop fl content j ks i_pa i_pf g = Inr g' \<Longrightarrow> k \<in> set ks \<Longrightarrow> j + k < length content"
  by (induction ks arbitrary: i_pf g) (auto simp: Let_def split: if_splits sum.splits)

lemma block_loop_error:
  "block_loop fl content j ks i_pa i_pf g = Inl e \<Longrightarrow> e = IndexError \<or> e = ValueError"
  by (induction ks arbitrary: i_pf g)
     (auto simp: Let_def split: if_splits sum.splits dest: parse_tokens_error set_slice_error)


lemma ring_loop_success:
  assumes "ring_loop fl content step js i_pa g = Inr g'" "0 < step"
  shows "length g' = length g \<and>
         (js \<noteq> [] \<longrightarrow> i_pa + length js \<le> length g) \<and>
         (\<forall>x. x < i_pa \<or> i_pa + length js \<le> x \<longrightarrow> g' ! x = g ! x) \<and>
         (\<forall>m < length js.
            \<exists>toks. parse_tokens fl (block_tokens content (js ! m) [0..<step]) = Inr toks \<and>
                   g' ! (i_pa + m) = place 0 toks (g ! (i_pa + m)))"
  using assms(1)
proof (induction js arbitrary: i_pa g)
  case Nil
  then show ?case by simp
next
  case (Cons j js)
  have ks: "[0..<step] \<noteq> []" using assms(2) by simp
  from Cons.prems obtain g1 where
    b: "block_loop fl content j [0..<step] i_pa 0 g = Inr g1"
    and rest: "ring_loop fl content step js (i_pa + 1) g1 = Inr g'"
    by (auto split: sum.splits)
  from block_loop_success [OF b] obtain toks where
    toks: "parse_tokens fl (block_tokens content j [0..<step]) = Inr toks"
    and g1: "g1 = g[i_pa := place 0 toks (g ! i_pa)]"
    by blast
  have i_pa: "i_pa < length g" using block_loop_index [OF b ks] .
  have len1: "length g1 = length g" using g1 by simp
  from Cons.IH [OF rest] have
    IH1: "length g' = length g1"
    and IH2: "js \<noteq> [] \<longrightarrow> i_pa + 1 + length js \<le> length g1"
    and IH3: "\<forall>x. x < i_pa + 1 \<or> i_pa + 1 + length js \<le> x \<longrightarrow> g' ! x = g1 ! x"
    and IH4: "\<forall>m < length js.
            \<exists>toks. parse_tokens fl (block_tokens content (js ! m) [0..<step]) = Inr toks \<and>
                   g' ! (i_pa + 1 + m) = place 0 toks (g1 ! (i_pa + 1 + m))"
    by blast+
  show ?case
  proof (intro conjI allI impI)
    show "length g' = length g" using IH1 len1 by simp
    show "i_pa + length (j # js) \<le> length g"
      using IH2 len1 i_pa by (cases "js = []") auto
  next
    fix x assume x: "x < i_pa \<or> i_pa + length (j # js) \<le> x"
    then have "g' ! x = g1 ! x" using IH3 by auto
    also have "\<dots> = g ! x" using x g1 by auto
    finally show "g' ! x = g ! x" .
  next
    fix m assume m: "m < length (j # js)"
    show "\<exists>toks. parse_tokens fl (block_tokens content ((j # js) ! m) [0..<step]) = Inr toks \<and>
                  g' ! (i_pa + m) = place 0 toks (g ! (i_pa + m))"
    proof (cases m)
      case 0
      have "g' ! i_pa = g1 ! i_pa" using IH3 by simp
      then have "g' ! i_pa = place 0 toks (g ! i_pa)" using g1 i_pa by simp
      with toks 0 show ?thesis by simp
    next
      case (Suc m')
      then have "m' < length js" using m by simp
      with IH4 obtain toks' where
        t: "parse_tokens fl (block_tokens content (js ! m') [0..<step]) = Inr toks'"
        and r: "g' ! (i_pa + 1 + m') = place 0 toks' (g1 ! (i_pa + 1 + m'))"
        by blast
      have "g1 ! (i_pa + 1 + m') = g ! (i_pa + 1 + m')" using g1 by simp
      with t r Suc show ?thesis by simp
    qed
  qed
qed

lemma ring_loop_error:
  "ring_loop fl content step js i_pa g = Inl e \<Longrightarrow> e = IndexError \<or> e = ValueError"
  by (induction js arbitrary: i_pa g) (auto split: sum.splits dest: block_loop_error)


lemma plane_loop_success:
  assumes "plane_loop fl content c df step si is pfs = Inr pfs'"
    and "distinct is" "\<forall>i \<in> set is. i < length pfs"
  shows "length pfs' = length pfs \<and>
         (\<forall>x. x \<notin> set is \<longrightarrow> pfs' ! x = pfs ! x) \<and>
         (\<forall>i \<in> set is. i < length df \<and> step \<noteq> 0 \<and>
            (\<exists>p. head_pos_of c (df ! i) = Some p \<and>
                 ring_loop fl content step (py_range (p + 1) (int (p + 1) + si) step) 0 (pfs ! i)
                   = Inr (pfs' ! i)))"
  using assms
proof (induction "is" arbitrary: pfs)
  case Nil
  then show ?case by simp
next
  case (Cons i "is")
  from Cons.prems(1) obtain p g where
    i: "i < length df" and st: "step \<noteq> 0"
    and p: "head_pos_of c (df ! i) = Some p"
    and g: "ring_loop fl content step (py_range (p + 1) (int (p + 1) + si) step) 0 (pfs ! i) = Inr g"
    and rest: "plane_loop fl content c df step si is (pfs[i := g]) = Inr pfs'"
    by (auto simp: Let_def split: if_splits option.splits sum.splits)
  have d: "distinct is" and ni: "i \<notin> set is" using Cons.prems(2) by auto
  have r: "\<forall>j \<in> set is. j < length (pfs[i := g])" using Cons.prems(3) by simp
  from Cons.IH [OF rest d r] have
    IH1: "length pfs' = length (pfs[i := g])"
    and IH2: "\<forall>x. x \<notin> set is \<longrightarrow> pfs' ! x = pfs[i := g] ! x"
    and IH3: "\<forall>j \<in> set is. j < length df \<and> step \<noteq> 0 \<and>
            (\<exists>p. head_pos_of c (df ! j) = Some p \<and>
                 ring_loop fl content step (py_range (p + 1) (int (p + 1) + si) step) 0 (pfs[i := g] ! j)
                   = Inr (pfs' ! j))"
    by blast+
  have il: "i < length pfs" using Cons.prems(3) by simp
  show ?case
  proof (intro conjI allI impI ballI)
    show "length pfs' = length pfs" using IH1 by simp
  next
    fix x assume "x \<notin> set (i # is)"
    then show "pfs' ! x = pfs ! x" using IH2 by auto
  next
    fix j assume j: "j \<in> set (i # is)"
    show "j < length df" using j i IH3 by auto
    show "step \<noteq> 0" using st .
    show "\<exists>p. head_pos_of c (df ! j) = Some p \<and>
                 ring_loop fl content step (py_range (p + 1) (int (p + 1) + si) step) 0 (pfs ! j)
                   = Inr (pfs' ! j)"
    proof (cases "j = i")
      case True
      have "pfs' ! i = g" using IH2 ni il by simp
      with p g True show ?thesis by auto
    next
      case False
      then have "j \<in> set is" using j by simp
      with IH3 False show ?thesis by auto
    qed
  qed
qed

lemma plane_loop_error:
  "plane_loop fl content c df step si is pfs = Inl e \<Longrightarrow> builtin e"
  by (induction "is" arbitrary: pfs)
     (auto simp: Let_def builtin_def split: if_splits option.splits sum.splits dest: ring_loop_error)

lemma plane_loop_unresolved:
  assumes "i \<in> set is" "head_pos_of c (df ! i) = None"
  shows "\<exists>e. plane_loop fl content c df step si is pfs = Inl e"
  using assms(1)
proof (induction "is" arbitrary: pfs)
  case Nil
  then show ?case by simp
next
  case (Cons a "is")
  show ?case
  proof (cases "a = i")
    case True
    then show ?thesis using assms(2) by simp
  next
    case False
    then have "i \<in> set is" using Cons.prems by simp
    from Cons.IH [OF this] show ?thesis
      by (auto simp: Let_def split: option.splits sum.splits)
  qed
qed

lemma get_intensities_error:
  "get_intensities fl content n df sp sa step c = Inl e \<Longrightarrow> builtin e"
  by (auto simp: get_intensities_def Let_def builtin_def split: if_splits dest: plane_loop_error)

lemma get_intensities_unresolved:
  assumes "i < nat n" "head_pos_of c (df ! i) = None"
  shows "\<exists>e. get_intensities fl content n df sp sa step c = Inl e \<and> builtin e"
proof -
  have "i \<in> set [0..<nat n]" using assms(1) by simp
  from plane_loop_unresolved [OF this assms(2)]
  have "\<exists>e. get_intensities fl content n df sp sa step c = Inl e"
    by (simp add: get_intensities_def Let_def)
  then show ?thesis using get_intensities_error by blast
qed

lemma length_py_range [simp]:
  "length (py_range start stop step) = nat ((stop - int start + int step - 1) div int step)"
  by (simp add: py_range_def)

lemma py_range_nth:
  "m < length (py_range start stop step) \<Longrightarrow> py_range start stop step ! m = start + step * m"
  by (simp add: py_range_def)


lemma py_int_nonneg: "0 \<le> q \<Longrightarrow> py_int q = \<lfloor>q\<rfloor>"
  by (simp add: py_int_def)

lemma py_int_neg_le: "q < 0 \<Longrightarrow> py_int q \<le> 0"
  by (simp add: py_int_def ceiling_le_iff)

lemma block_count_ge:
  assumes "0 < step"
  shows "nat (py_int q) \<le> nat ((py_int (of_nat step * q) + int step - 1) div int step)"
proof (cases "q < 0")
  case True
  then show ?thesis using py_int_neg_le [OF True] by simp
next
  case False
  then have q: "0 \<le> q" by simp
  then have sq: "0 \<le> of_nat step * q" by simp
  have "of_int (int step * \<lfloor>q\<rfloor>) \<le> of_nat step * q"
    using q by (simp add: mult_left_mono)
  then have le: "int step * \<lfloor>q\<rfloor> \<le> \<lfloor>of_nat step * q\<rfloor>"
    by (simp add: le_floor_iff)
  have "\<lfloor>q\<rfloor> = (int step * \<lfloor>q\<rfloor> + (int step - 1)) div int step"
    using assms by simp
  also have "\<dots> \<le> (\<lfloor>of_nat step * q\<rfloor> + (int step - 1)) div int step"
    using le assms by (intro zdiv_mono1) auto
  finally have "\<lfloor>q\<rfloor> \<le> (\<lfloor>of_nat step * q\<rfloor> + int step - 1) div int step"
    by (simp add: algebra_simps)
  then show ?thesis
    using q sq by (simp add: py_int_nonneg)
qed

lemma get_intensities_success:
  assumes "get_intensities fl content n df sp sa step c = Inr ints"
  shows "sp \<noteq> 0 \<and> sa \<noteq> 0 \<and> 0 \<le> n \<and> 0 \<le> py_int (polar_max_of c / sp) \<and> 0 \<le> py_int (360 / sa) \<and>
         length ints = nat n \<and>
         (\<forall>i < nat n. i < length df \<and> step \<noteq> 0 \<and>
            (\<exists>p. head_pos_of c (df ! i) = Some p \<and>
                 ring_loop fl content step
                   (py_range (p + 1) (int (p + 1) + py_int (of_nat step * polar_max_of c / sp)) step) 0
                   (replicate (nat (py_int (polar_max_of c / sp))) (replicate (nat (py_int (360 / sa))) 0))
                 = Inr (ints ! i)))"
proof -
  let ?z = "replicate (nat n) (replicate (nat (py_int (polar_max_of c / sp))) (replicate (nat (py_int (360 / sa))) (0::rat)))"
  from assms have
    ok: "sp \<noteq> 0" "sa \<noteq> 0" "0 \<le> n" "0 \<le> py_int (polar_max_of c / sp)" "0 \<le> py_int (360 / sa)"
    and pl: "plane_loop fl content c df step (py_int (of_nat step * polar_max_of c / sp)) [0..<nat n] ?z = Inr ints"
    by (auto simp: get_intensities_def Let_def split: if_splits)
  have "\<forall>i \<in> set [0..<nat n]. i < length ?z" by simp
  from plane_loop_success [OF pl _ this] have
    len: "length ints = length ?z"
    and each: "\<forall>i \<in> set [0..<nat n]. i < length df \<and> step \<noteq> 0 \<and>
            (\<exists>p. head_pos_of c (df ! i) = Some p \<and>
                 ring_loop fl content step
                   (py_range (p + 1) (int (p + 1) + py_int (of_nat step * polar_max_of c / sp)) step) 0 (?z ! i)
                   = Inr (ints ! i))"
    by auto
  show ?thesis using ok len each by auto
qed

lemma get_intensities_rings:
  assumes "get_intensities fl content n df sp sa step c = Inr ints" "0 < step" "i < nat n"
  shows "\<exists>p. head_pos_of c (df ! i) = Some p \<and>
           length (ints ! i) = nat (py_int (polar_max_of c / sp)) \<and>
           nat ((py_int (of_nat step * polar_max_of c / sp) + int step - 1) div int step)
             = nat (py_int (polar_max_of c / sp)) \<and>
           (\<forall>r < nat (py_int (polar_max_of c / sp)).
              \<exists>toks. parse_tokens fl (block_tokens content (p + 1 + step * r) [0..<step]) = Inr toks \<and>
                ints ! i ! r = take (nat (py_int (360 / sa))) (toks @ replicate (nat (py_int (360 / sa))) 0))"
proof -
  let ?R = "nat (py_int (polar_max_of c / sp))"
  let ?L = "nat (py_int (360 / sa))"
  let ?si = "py_int (of_nat step * polar_max_of c / sp)"
  let ?g = "replicate ?R (replicate ?L (0::rat))"
  from get_intensities_success [OF assms(1)] assms(3) obtain p where
    p: "head_pos_of c (df ! i) = Some p"
    and rl: "ring_loop fl content step (py_range (p + 1) (int (p + 1) + ?si) step) 0 ?g = Inr (ints ! i)"
    by blast
  let ?js = "py_range (p + 1) (int (p + 1) + ?si) step"
  have cnt: "length ?js = nat ((?si + int step - 1) div int step)" by simp
  from ring_loop_success [OF rl assms(2)] have
    len: "length (ints ! i) = length ?g"
    and bound: "?js \<noteq> [] \<longrightarrow> 0 + length ?js \<le> length ?g"
    and rows: "\<forall>m < length ?js.
            \<exists>toks. parse_tokens fl (block_tokens content (?js ! m) [0..<step]) = Inr toks \<and>
                   (ints ! i) ! (0 + m) = place 0 toks (?g ! (0 + m))"
    by blast+
  have ge: "?R \<le> length ?js"
    using block_count_ge [OF assms(2), of "polar_max_of c / sp"] by (simp add: cnt)
  have le: "length ?js \<le> ?R" using bound by (cases "?js = []") auto
  have eq: "length ?js = ?R" using ge le by simp
  have "\<forall>r < ?R. \<exists>toks. parse_tokens fl (block_tokens content (p + 1 + step * r) [0..<step]) = Inr toks \<and>
                ints ! i ! r = take ?L (toks @ replicate ?L 0)"
  proof (intro allI impI)
    fix r assume r: "r < ?R"
    then have rj: "r < length ?js" using eq by simp
    with rows obtain toks where
      t: "parse_tokens fl (block_tokens content (?js ! r) [0..<step]) = Inr toks"
      and v: "(ints ! i) ! (0 + r) = place 0 toks (?g ! (0 + r))"
      by blast
    have j: "?js ! r = p + 1 + step * r" using py_range_nth [OF rj] .
    show "\<exists>toks. parse_tokens fl (block_tokens content (p + 1 + step * r) [0..<step]) = Inr toks \<and>
                ints ! i ! r = take ?L (toks @ replicate ?L 0)"
      using t v j r by (auto simp: place_zeros)
  qed
  then show ?thesis using p len eq cnt by auto
qed

section \<open>The grid extractor\<close>

text \<open>
  C3.  The claim holds on every run that returns a grid (\<open>get_intensities_rings\<close>), but the
  script does not always get that far.  The array has \<open>int(polar_max / step_polar)\<close> rings
  (line 113), while the loop of line 120 makes one pass per started group of 8 in
  \<open>int(8 * polar_max / step_polar)\<close> lines (line 112).  When the second number exceeds 8 times
  the first, as for a polar step of 3 degrees (26 rings, 213 lines, 27 passes), the loop starts
  one block more than there are rings and every extraction with at least one plane ends in an
  exception.
\<close>

theorem extra_block_fails:
  assumes "0 < n_pfs"
    and "8 * py_int (polar_max_of corr_data / step_polar) < py_int (8 * polar_max_of corr_data / step_polar)"
  shows "\<exists>e. get_intensities fl content n_pfs pfs_df step_polar step_azimuthal 8 corr_data = Inl e
             \<and> builtin e"
proof (cases "get_intensities fl content n_pfs pfs_df step_polar step_azimuthal 8 corr_data")
  case (Inl e)
  then show ?thesis using get_intensities_error by blast
next
  case (Inr ints)
  have i: "(0::nat) < nat n_pfs" using assms(1) by simp
  from get_intensities_rings [OF Inr _ i] have
    "nat ((py_int (of_nat 8 * polar_max_of corr_data / step_polar) + int 8 - 1) div int 8)
       = nat (py_int (polar_max_of corr_data / step_polar))"
    by auto
  moreover have "0 \<le> py_int (polar_max_of corr_data / step_polar)"
    using get_intensities_success [OF Inr] by blast
  ultimately have False using assms(2) by simp
  then show ?thesis ..
qed

theorem extra_block_fails_witness:
  "(0::int) < 1 \<and> 8 * py_int (polar_max_of False / 3) < py_int (8 * polar_max_of False / 3) \<and>
   (\<exists>e. get_intensities read_decimal ex_short 1 (new_df 1) 3 5 8 False = Inl e \<and> builtin e)"
proof -
  have a: "(0::int) < 1" by simp
  have b: "8 * py_int (polar_max_of False / 3) < py_int (8 * polar_max_of False / 3)"
    by code_simp
  from extra_block_fails [OF a b] a b show ?thesis by blast
qed

lemma set_slice_fits:
  "i + length ints \<le> length row \<Longrightarrow> \<exists>row'. set_slice i ints row = Inr row'"
  by (simp add: set_slice_def Let_def min_def)

lemma block_loop_ok:
  assumes "\<forall>k \<in> set ks. j + k < length content"
    and "parse_tokens fl (block_tokens content j ks) = Inr toks"
    and "i_pa < length g" "i_pf + length toks \<le> length (g ! i_pa)"
  shows "\<exists>g'. block_loop fl content j ks i_pa i_pf g = Inr g'"
  using assms
proof (induction ks arbitrary: i_pf g toks)
  case Nil
  then show ?case by simp
next
  case (Cons k ks)
  from Cons.prems(2) obtain ints toks' where
    ints: "parse_tokens fl (split_ws (content ! (j + k))) = Inr ints"
    and toks': "parse_tokens fl (block_tokens content j ks) = Inr toks'"
    and toks: "toks = ints @ toks'"
    by (auto simp: parse_tokens_append split: sum.splits)
  have "i_pf + length ints \<le> length (g ! i_pa)" using Cons.prems(4) toks by simp
  from set_slice_fits [OF this] obtain row where row: "set_slice i_pf ints (g ! i_pa) = Inr row"
    by blast
  have lrow: "length row = length (g ! i_pa)" using set_slice_success [OF row] by simp
  have "\<exists>g'. block_loop fl content j ks i_pa (i_pf + length ints) (g[i_pa := row]) = Inr g'"
  proof (rule Cons.IH [OF _ toks'])
    show "\<forall>k \<in> set ks. j + k < length content" using Cons.prems(1) by simp
    show "i_pa < length (g[i_pa := row])" using Cons.prems(3) by simp
    show "i_pf + length ints + length toks' \<le> length (g[i_pa := row] ! i_pa)"
      using Cons.prems(3,4) toks lrow by simp
  qed
  then show ?case using ints row Cons.prems(1,3) by (simp add: Let_def)
qed

lemma ring_loop_ok:
  assumes "i_pa + length js \<le> length g"
    and "\<forall>m < length js. (\<forall>k < step. js ! m + k < length content) \<and>
           (\<exists>toks. parse_tokens fl (block_tokens content (js ! m) [0..<step]) = Inr toks \<and>
                   length toks \<le> length (g ! (i_pa + m)))"
  shows "\<exists>g'. ring_loop fl content step js i_pa g = Inr g'"
  using assms
proof (induction js arbitrary: i_pa g)
  case Nil
  then show ?case by simp
next
  case (Cons j js)
  from Cons.prems(2) have
    lines: "\<forall>k < step. j + k < length content"
    and "\<exists>toks. parse_tokens fl (block_tokens content j [0..<step]) = Inr toks \<and>
                   length toks \<le> length (g ! i_pa)"
    by force+
  then obtain toks where
    toks: "parse_tokens fl (block_tokens content j [0..<step]) = Inr toks"
    and fit: "length toks \<le> length (g ! i_pa)"
    by blast
  have i_pa: "i_pa < length g" using Cons.prems(1) by simp
  have "\<exists>g1. block_loop fl content j [0..<step] i_pa 0 g = Inr g1"
    using lines toks i_pa fit by (intro block_loop_ok) auto
  then obtain g1 where b: "block_loop fl content j [0..<step] i_pa 0 g = Inr g1" by blast
  from block_loop_success [OF b] obtain t where g1: "g1 = g[i_pa := place 0 t (g ! i_pa)]"
    by blast
  have "\<exists>g'. ring_loop fl content step js (i_pa + 1) g1 = Inr g'"
  proof (rule Cons.IH)
    show "i_pa + 1 + length js \<le> length g1" using Cons.prems(1) g1 by simp
    show "\<forall>m < length js. (\<forall>k < step. js ! m + k < length content) \<and>
           (\<exists>toks. parse_tokens fl (block_tokens content (js ! m) [0..<step]) = Inr toks \<and>
                   length toks \<le> length (g1 ! (i_pa + 1 + m)))"
    proof (intro allI impI)
      fix m assume m: "m < length js"
      then have "Suc m < length (j # js)" by simp
      with Cons.prems(2) have
        "(\<forall>k < step. (j # js) ! Suc m + k < length content) \<and>
           (\<exists>toks. parse_tokens fl (block_tokens content ((j # js) ! Suc m) [0..<step]) = Inr toks \<and>
                   length toks \<le> length (g ! (i_pa + Suc m)))"
        by blast
      moreover have "g1 ! (i_pa + 1 + m) = g ! (i_pa + Suc m)" using g1 by simp
      ultimately show "(\<forall>k < step. js ! m + k < length content) \<and>
           (\<exists>toks. parse_tokens fl (block_tokens content (js ! m) [0..<step]) = Inr toks \<and>
                   length toks \<le> length (g1 ! (i_pa + 1 + m)))"
        by simp
    qed
  qed
  then show ?case using b by simp
qed

lemma plane_loop_ok:
  assumes "step \<noteq> 0" "distinct is"
    and "\<forall>i \<in> set is. i < length df \<and> i < length pfs \<and>
           (\<exists>p. head_pos_of c (df ! i) = Some p \<and>
                (\<exists>g. ring_loop fl content step (py_range (p + 1) (int (p + 1) + si) step) 0 (pfs ! i) = Inr g))"
  shows "\<exists>pfs'. plane_loop fl content c df step si is pfs = Inr pfs'"
  using assms(2,3)
proof (induction "is" arbitrary: pfs)
  case Nil
  then show ?case by simp
next
  case (Cons i "is")
  from Cons.prems(2) obtain p g where
    i: "i < length df" "i < length pfs"
    and p: "head_pos_of c (df ! i) = Some p"
    and g: "ring_loop fl content step (py_range (p + 1) (int (p + 1) + si) step) 0 (pfs ! i) = Inr g"
    by auto
  have ni: "i \<notin> set is" and d: "distinct is" using Cons.prems(1) by auto
  have "\<exists>pfs'. plane_loop fl content c df step si is (pfs[i := g]) = Inr pfs'"
  proof (rule Cons.IH [OF d], intro ballI)
    fix j assume j: "j \<in> set is"
    then have "j \<noteq> i" using ni by auto
    then have "pfs[i := g] ! j = pfs ! j" by simp
    then show "j < length df \<and> j < length (pfs[i := g]) \<and>
           (\<exists>p. head_pos_of c (df ! j) = Some p \<and>
                (\<exists>g'. ring_loop fl content step (py_range (p + 1) (int (p + 1) + si) step) 0 (pfs[i := g] ! j) = Inr g'))"
      using Cons.prems(2) j by auto
  qed
  then show ?case using i p g assms(1) by (simp add: Let_def)
qed

lemma get_intensities_ok:
  assumes "sp \<noteq> 0" "sa \<noteq> 0" "0 \<le> n" "0 \<le> py_int (polar_max_of c / sp)" "0 \<le> py_int (360 / sa)"
    and "0 < step"
    and "py_int (of_nat step * polar_max_of c / sp) \<le> int step * py_int (polar_max_of c / sp)"
    and "\<forall>i < nat n. i < length df \<and>
           (\<exists>p. head_pos_of c (df ! i) = Some p \<and>
              (\<forall>r < nat (py_int (polar_max_of c / sp)).
                 (\<forall>k < step. p + 1 + step * r + k < length content) \<and>
                 (\<exists>toks. parse_tokens fl (block_tokens content (p + 1 + step * r) [0..<step]) = Inr toks \<and>
                         length toks \<le> nat (py_int (360 / sa)))))"
  shows "\<exists>ints. get_intensities fl content n df sp sa step c = Inr ints"
proof -
  let ?R = "nat (py_int (polar_max_of c / sp))"
  let ?L = "nat (py_int (360 / sa))"
  let ?si = "py_int (of_nat step * polar_max_of c / sp)"
  let ?g = "replicate ?R (replicate ?L (0::rat))"
  let ?z = "replicate (nat n) ?g"
  have cnt: "nat ((?si + int step - 1) div int step) \<le> ?R"
  proof -
    have "(?si + (int step - 1)) div int step
            \<le> (int step * py_int (polar_max_of c / sp) + (int step - 1)) div int step"
      using assms(6,7) by (intro zdiv_mono1) auto
    also have "\<dots> = py_int (polar_max_of c / sp)" using assms(6) by simp
    finally show ?thesis by (simp add: algebra_simps)
  qed
  have "\<exists>pfs'. plane_loop fl content c df step ?si [0..<nat n] ?z = Inr pfs'"
  proof (rule plane_loop_ok, goal_cases)
    case 1
    show ?case using assms(6) by simp
  next
    case 2
    show ?case by simp
  next
    case 3
    show ?case
    proof (intro ballI)
      fix i assume "i \<in> set [0..<nat n]"
      then have i: "i < nat n" by simp
      with assms(8) obtain p where
        idf: "i < length df" and p: "head_pos_of c (df ! i) = Some p"
        and blocks: "\<forall>r < ?R. (\<forall>k < step. p + 1 + step * r + k < length content) \<and>
                 (\<exists>toks. parse_tokens fl (block_tokens content (p + 1 + step * r) [0..<step]) = Inr toks \<and>
                         length toks \<le> ?L)"
        by blast
      let ?js = "py_range (p + 1) (int (p + 1) + ?si) step"
      have ljs: "length ?js \<le> ?R" using cnt by simp
      have "\<exists>g. ring_loop fl content step ?js 0 ?g = Inr g"
      proof (rule ring_loop_ok)
        show "0 + length ?js \<le> length ?g" using ljs by simp
        show "\<forall>m < length ?js. (\<forall>k < step. ?js ! m + k < length content) \<and>
           (\<exists>toks. parse_tokens fl (block_tokens content (?js ! m) [0..<step]) = Inr toks \<and>
                   length toks \<le> length (?g ! (0 + m)))"
        proof (intro allI impI)
          fix m assume m: "m < length ?js"
          then have mR: "m < ?R" using ljs by simp
          have j: "?js ! m = p + 1 + step * m" using py_range_nth [OF m] .
          show "(\<forall>k < step. ?js ! m + k < length content) \<and>
           (\<exists>toks. parse_tokens fl (block_tokens content (?js ! m) [0..<step]) = Inr toks \<and>
                   length toks \<le> length (?g ! (0 + m)))"
            using blocks mR j by simp
        qed
      qed
      then show "i < length df \<and> i < length ?z \<and>
           (\<exists>p. head_pos_of c (df ! i) = Some p \<and>
                (\<exists>g. ring_loop fl content step (py_range (p + 1) (int (p + 1) + ?si) step) 0 (?z ! i) = Inr g))"
        using idf p i by auto
    qed
  qed
  then show ?thesis using assms(1-5) by (simp add: get_intensities_def Let_def)
qed

text \<open>
  C2 (as amended).  No count of tokens is checked.  In a file whose blocks are all present and
  numeric and hold at most \<open>360 / step_azimuthal\<close> tokens each, extraction returns a grid, and
  ring \<open>r\<close> of plane \<open>i\<close> holds the rounded tokens of its 8 lines in order, followed by 0.0 in
  the cells that the tokens do not reach; with exactly \<open>360 / step_azimuthal\<close> tokens every cell
  holds the token of its position.
\<close>

theorem short_block_is_padded_with_zeros:
  assumes "step_polar \<noteq> 0" "step_azimuthal \<noteq> 0" "0 \<le> n_pfs"
    and "0 \<le> py_int (polar_max_of corr_data / step_polar)" "0 \<le> py_int (360 / step_azimuthal)"
    and "py_int (8 * polar_max_of corr_data / step_polar) \<le> 8 * py_int (polar_max_of corr_data / step_polar)"
    and "\<forall>i < nat n_pfs. i < length pfs_df \<and>
           (\<exists>p. head_pos_of corr_data (pfs_df ! i) = Some p \<and>
              (\<forall>r < nat (py_int (polar_max_of corr_data / step_polar)).
                 (\<forall>k < 8. p + 1 + 8 * r + k < length content) \<and>
                 (\<exists>toks. parse_tokens fl (block_tokens content (p + 1 + 8 * r) [0..<8]) = Inr toks \<and>
                         length toks \<le> nat (py_int (360 / step_azimuthal)))))"
  shows "\<exists>ints. get_intensities fl content n_pfs pfs_df step_polar step_azimuthal 8 corr_data = Inr ints \<and>
           (\<forall>i < nat n_pfs. \<forall>r < nat (py_int (polar_max_of corr_data / step_polar)).
              \<exists>p toks. head_pos_of corr_data (pfs_df ! i) = Some p \<and>
                parse_tokens fl (block_tokens content (p + 1 + 8 * r) [0..<8]) = Inr toks \<and>
                ints ! i ! r = toks @ replicate (nat (py_int (360 / step_azimuthal)) - length toks) 0)"
proof -
  let ?R = "nat (py_int (polar_max_of corr_data / step_polar))"
  let ?L = "nat (py_int (360 / step_azimuthal))"
  have "\<exists>ints. get_intensities fl content n_pfs pfs_df step_polar step_azimuthal 8 corr_data = Inr ints"
    using assms by (intro get_intensities_ok) auto
  then obtain ints where
    ints: "get_intensities fl content n_pfs pfs_df step_polar step_azimuthal 8 corr_data = Inr ints"
    by blast
  have "\<forall>i < nat n_pfs. \<forall>r < ?R.
              \<exists>p toks. head_pos_of corr_data (pfs_df ! i) = Some p \<and>
                parse_tokens fl (block_tokens content (p + 1 + 8 * r) [0..<8]) = Inr toks \<and>
                ints ! i ! r = toks @ replicate (?L - length toks) 0"
  proof (intro allI impI)
    fix i r assume i: "i < nat n_pfs" and r: "r < ?R"
    from get_intensities_rings [OF ints _ i] obtain p where
      p: "head_pos_of corr_data (pfs_df ! i) = Some p"
      and rows: "\<forall>r < ?R. \<exists>toks. parse_tokens fl (block_tokens content (p + 1 + 8 * r) [0..<8]) = Inr toks \<and>
                ints ! i ! r = take ?L (toks @ replicate ?L 0)"
      by auto
    from rows r obtain toks where
      t: "parse_tokens fl (block_tokens content (p + 1 + 8 * r) [0..<8]) = Inr toks"
      and v: "ints ! i ! r = take ?L (toks @ replicate ?L 0)"
      by blast
    from assms(7) i p r t have "length toks \<le> ?L" by fastforce
    then have "take ?L (toks @ replicate ?L 0) = toks @ replicate (?L - length toks) 0"
      by simp
    with p t v show "\<exists>p toks. head_pos_of corr_data (pfs_df ! i) = Some p \<and>
                parse_tokens fl (block_tokens content (p + 1 + 8 * r) [0..<8]) = Inr toks \<and>
                ints ! i ! r = toks @ replicate (?L - length toks) 0"
      by auto
  qed
  with ints show ?thesis by blast
qed


theorem short_block_witness:
  "\<exists>ints. get_intensities read_decimal ex_short 1 ex_short_df 80 180 8 False = Inr ints \<and>
          ints ! 0 ! 0 = [3 / 2, 0]"
proof -
  have R: "nat (py_int (polar_max_of False / 80)) = 1" by code_simp
  have L: "nat (py_int (360 / 180)) = 2" by code_simp
  have t: "parse_tokens read_decimal (block_tokens ex_short (0 + 1 + 8 * 0) [0..<8]) = Inr [3 / 2]"
    by code_simp
  have p: "head_pos_of False (ex_short_df ! 0) = Some 0" by code_simp
  have len: "length ex_short = 9" "length ex_short_df = 1" by code_simp+
  have a: "(80::rat) \<noteq> 0" "(180::rat) \<noteq> 0" "(0::int) \<le> 1" by simp_all
  have b: "0 \<le> py_int (polar_max_of False / 80)" "0 \<le> py_int (360 / 180)"
    "py_int (8 * polar_max_of False / 80) \<le> 8 * py_int (polar_max_of False / 80)"
    by code_simp+
  have c: "\<forall>i < nat 1. i < length ex_short_df \<and>
           (\<exists>p. head_pos_of False (ex_short_df ! i) = Some p \<and>
              (\<forall>r < nat (py_int (polar_max_of False / 80)).
                 (\<forall>k < 8. p + 1 + 8 * r + k < length ex_short) \<and>
                 (\<exists>toks. parse_tokens read_decimal (block_tokens ex_short (p + 1 + 8 * r) [0..<8]) = Inr toks \<and>
                         length toks \<le> nat (py_int (360 / 180)))))"
    unfolding R L using t p len by auto
  from short_block_is_padded_with_zeros [OF a b c] obtain ints where
    ints: "get_intensities read_decimal ex_short 1 ex_short_df 80 180 8 False = Inr ints"
    and rows: "\<forall>i < nat 1. \<forall>r < nat (py_int (polar_max_of False / 80)).
              \<exists>p toks. head_pos_of False (ex_short_df ! i) = Some p \<and>
                parse_tokens read_decimal (block_tokens ex_short (p + 1 + 8 * r) [0..<8]) = Inr toks \<and>
                ints ! i ! r = toks @ replicate (nat (py_int (360 / 180)) - length toks) 0"
    by blast
  from rows have "\<exists>p toks. head_pos_of False (ex_short_df ! 0) = Some p \<and>
                parse_tokens read_decimal (block_tokens ex_short (p + 1 + 8 * 0) [0..<8]) = Inr toks \<and>
                ints ! 0 ! 0 = toks @ replicate (nat (py_int (360 / 180)) - length toks) 0"
    unfolding R by simp
  then have "ints ! 0 ! 0 = [3 / 2, 0]" using p t L by (auto simp: numeral_2_eq_2)
  with ints show ?thesis by blast
qed

text \<open>
  C2 as stated fails: the only ring of \<open>ex_short\<close> has two cells and its block holds one token;
  extraction returns a grid whose second cell is the initial 0.0.
\<close>

theorem short_block_counterexample:
  "length (block_tokens ex_short 1 [0..<8]) = 1 \<and> py_int (360 / 180) = 2 \<and>
   get_meta_data 1 (new_df 1) ex_short (fmt_fixed 2 80) (fmt_fixed 2 180) 80 180 False = Inr ex_short_df \<and>
   get_intensities read_decimal ex_short 1 ex_short_df 80 180 8 False = Inr [[[3 / 2, 0]]] \<and>
   get_intensities read_decimal ex_short 1 ex_short_df 80 180 8 False \<noteq> Inl IntensityBlockSizeMismatch"
  by code_simp

lemma ex_step60_fails:
  "snd (run_pass read_decimal ''a.RES'' 1 ex_step60 60 180 (new_df 1) False) = ([], Some IndexError)"
  by code_simp

section \<open>Facts about a pass\<close>

lemma head_loop_error:
  "head_loop c sps sas sp sa is df = Inl e \<Longrightarrow> e = IndexError \<or> e = ZeroDivisionError"
  by (induction "is" arbitrary: df) (auto simp: header_signature_def split: if_splits sum.splits)

lemma get_meta_data_error:
  "get_meta_data n df content sps sas sp sa c = Inl e \<Longrightarrow> e = IndexError \<or> e = ZeroDivisionError"
  by (auto simp: get_meta_data_def split: sum.splits dest: head_loop_error)

lemma get_meta_data_frame:
  assumes "get_meta_data n df content sps sas sp sa c = Inr df'"
  shows "length df' = length df" "map plane df' = map plane df"
    "map (head_pos_of (\<not> c)) df' = map (head_pos_of (\<not> c)) df"
proof -
  from assms obtain df0 where
    df0: "head_loop c sps sas sp sa [0..<nat n] df = Inr df0"
    and df': "df' = scan c 0 content df0"
    by (auto simp: get_meta_data_def split: sum.splits)
  show "length df' = length df" using df' head_loop_length [OF df0] by simp
  show "map plane df' = map plane df" using df' head_loop_plane [OF df0] by simp
  show "map (head_pos_of (\<not> c)) df' = map (head_pos_of (\<not> c)) df"
    using df' head_loop_head_pos [OF df0, of "\<not> c"] head_pos_other_scan [of "\<not> c" c 0 content df0]
    by simp
qed

lemma get_meta_data_unmatched:
  assumes "get_meta_data n df content sps sas sp sa c = Inr df'"
    and "i < nat n" "head_pos_of c (df ! i) = None"
    and "\<forall>line \<in> set content. header_signature c (plane (df ! i)) sps sas sp sa \<noteq> Inr (rstrip line)"
  shows "head_pos_of c (df' ! i) = None"
proof -
  from assms(1) obtain df0 where
    df0: "head_loop c sps sas sp sa [0..<nat n] df = Inr df0"
    and df': "df' = scan c 0 content df0"
    by (auto simp: get_meta_data_def split: sum.splits)
  have i: "i < length df" using get_meta_data_rows(1) [OF assms(1,2)] .
  have len0: "length df0 = length df" using head_loop_length [OF df0] .
  have h: "head_of c (df0 ! i) =
      (case header_signature c (plane (df ! i)) sps sas sp sa of Inr s \<Rightarrow> Some s | Inl e \<Rightarrow> None)"
    using head_loop_head [OF df0 i] assms(2) by simp
  have "\<forall>line \<in> set content. head_of c (df0 ! i) \<noteq> Some (rstrip line)"
    using h assms(4) by (auto split: sum.splits)
  then have "scan c 0 content df0 ! i = df0 ! i"
    using i len0 by (intro scan_no_match) auto
  moreover have "head_pos_of c (df0 ! i) = head_pos_of c (df ! i)"
    using head_loop_head_pos [OF df0, of c] i len0 by (metis nth_map)
  ultimately show ?thesis using df' assms(3) by simp
qed

lemma write_loop_result:
  "snd (write_loop polar azimuthal pfs_ints df infile c is) = Some e \<Longrightarrow> e = IndexError"
  by (induction "is") (auto simp: Let_def split: if_splits)

lemma write_loop_result_pair:
  "write_loop polar azimuthal pfs_ints df infile c is = (fs, Some e) \<Longrightarrow> e = IndexError"
  using write_loop_result [of polar azimuthal pfs_ints df infile c "is" e] by simp

lemma write_loop_names:
  "f \<in> set (fst (write_loop polar azimuthal pfs_ints df infile c is)) \<Longrightarrow>
   \<exists>p. fst f = outfile_name infile p c"
  by (induction "is") (auto simp: Let_def split: if_splits)

lemma run_pass_error:
  assumes "run_pass fl infile n content sp sa df c = (df', fs, Some e)"
  shows "builtin e"
proof (cases "get_meta_data n df content (fmt_fixed 2 sp) (fmt_fixed 2 sa) sp sa c")
  case (Inl a)
  then show ?thesis using assms get_meta_data_error [OF Inl] by (auto simp: run_pass_def builtin_def)
next
  case (Inr d)
  show ?thesis
  proof (cases "get_intensities fl content n d sp sa 8 c")
    case (Inl a)
    then show ?thesis using assms Inr get_intensities_error [OF Inl] by (auto simp: run_pass_def)
  next
    case (Inr ints)
    then show ?thesis
      using assms \<open>get_meta_data n df content (fmt_fixed 2 sp) (fmt_fixed 2 sa) sp sa c = Inr d\<close>
      by (auto simp: run_pass_def write_intensities_to_file_def Let_def builtin_def
               dest: write_loop_result_pair)
  qed
qed

lemma run_pass_names:
  assumes "f \<in> set (fst (snd (run_pass fl infile n content sp sa df c)))"
  shows "\<exists>p. fst f = outfile_name infile p c"
  using assms
  by (auto simp: run_pass_def write_intensities_to_file_def Let_def
           split: sum.splits dest: write_loop_names)

lemma run_pass_frame:
  assumes "run_pass fl infile n content sp sa df c = (df', fs, None)"
  shows "length df' = length df" "map plane df' = map plane df"
    "map (head_pos_of (\<not> c)) df' = map (head_pos_of (\<not> c)) df"
  using assms get_meta_data_frame [of n df content "fmt_fixed 2 sp" "fmt_fixed 2 sa" sp sa c]
  by (auto simp: run_pass_def split: sum.splits)

lemma run_pass_unresolved:
  assumes "i < nat n" "i < length df" "head_pos_of c (df ! i) = None"
    and "\<forall>line \<in> set content.
           header_signature c (plane (df ! i)) (fmt_fixed 2 sp) (fmt_fixed 2 sa) sp sa \<noteq> Inr (rstrip line)"
  shows "\<exists>e. snd (run_pass fl infile n content sp sa df c) = ([], Some e) \<and> builtin e"
proof (cases "get_meta_data n df content (fmt_fixed 2 sp) (fmt_fixed 2 sa) sp sa c")
  case (Inl e)
  then show ?thesis using get_meta_data_error [OF Inl] by (auto simp: run_pass_def builtin_def)
next
  case (Inr d)
  have "head_pos_of c (d ! i) = None" using get_meta_data_unmatched [OF Inr assms(1,3,4)] .
  from get_intensities_unresolved [OF assms(1) this]
  obtain e where "get_intensities fl content n d sp sa 8 c = Inl e" "builtin e" by blast
  then show ?thesis using Inr by (auto simp: run_pass_def)
qed

lemma builtin_not_named:
  "builtin e \<Longrightarrow> e \<noteq> HeaderNotFound p m \<and> e \<noteq> IntensityBlockSizeMismatch \<and>
     e \<noteq> PlaneCountOutOfRange \<and> e \<noteq> InvalidExtension \<and> e \<noteq> MalformedHeader"
  by (auto simp: builtin_def)

section \<open>Failures of a run\<close>

text \<open>
  C1 (as amended).  The script has no check of the located offsets.  When the signature of a
  requested plane matches no line, the offset of the plane stays NaN and the pass goes on to
  \<open>get_intensities\<close>, where it ends in a built-in exception (TypeError from \<open>range\<close> once the
  loop reaches that plane, or an exception raised earlier), which names neither the plane nor
  the correction mode.  No grid is returned and no file of the pass is written.
\<close>

theorem unresolved_header_ends_in_builtin_exception:
  assumes "i < nat n_pfs" "i < length pfs_df" "head_pos_of corr_data (pfs_df ! i) = None"
    and "\<forall>line \<in> set content.
           header_signature corr_data (plane (pfs_df ! i)) (fmt_fixed 2 step_polar)
             (fmt_fixed 2 step_azimuthal) step_polar step_azimuthal \<noteq> Inr (rstrip line)"
  shows "\<exists>e. snd (run_pass fl infile n_pfs content step_polar step_azimuthal pfs_df corr_data)
               = ([], Some e) \<and>
             builtin e \<and> (\<forall>p m. e \<noteq> HeaderNotFound p m)"
proof -
  from run_pass_unresolved [OF assms] obtain e where
    "snd (run_pass fl infile n_pfs content step_polar step_azimuthal pfs_df corr_data) = ([], Some e)"
    "builtin e"
    by blast
  then show ?thesis using builtin_not_named by blast
qed

theorem unresolved_header_witness:
  "\<exists>e. snd (run_pass read_decimal ''a.RES'' 1 ex_meta 5 5 (new_df 1) False) = ([], Some e) \<and>
        builtin e"
proof -
  have a: "(0::nat) < nat 1" by simp
  have b: "0 < length (new_df 1)" by code_simp
  have c: "head_pos_of False (new_df 1 ! 0) = None" by code_simp
  have s: "header_signature False (plane (new_df 1 ! 0)) (fmt_fixed 2 5) (fmt_fixed 2 5) 5 5
             = Inr '' 111       5.00   72    0 5.00   16    0''"
    by code_simp
  have r: "map rstrip ex_meta = [''TEXEVAL'', ''sample'', ''LMAX 22'', ''STEP 5.00 5.00'']"
    by code_simp
  have d: "\<forall>line \<in> set ex_meta.
           header_signature False (plane (new_df 1 ! 0)) (fmt_fixed 2 5) (fmt_fixed 2 5) 5 5
             \<noteq> Inr (rstrip line)"
  proof
    fix line assume "line \<in> set ex_meta"
    then have "rstrip line \<in> set (map rstrip ex_meta)" by simp
    then show "header_signature False (plane (new_df 1 ! 0)) (fmt_fixed 2 5) (fmt_fixed 2 5) 5 5
             \<noteq> Inr (rstrip line)"
      unfolding r s by auto
  qed
  from unresolved_header_ends_in_builtin_exception [OF a b c d] show ?thesis by blast
qed

text \<open>
  C1 as stated fails: \<open>ex_meta\<close> has no header line; the offset of plane 111 stays unset and the
  pass ends in TypeError, not in an error that names the plane and the mode.
\<close>

theorem unresolved_header_counterexample:
  "offsets False (get_meta_data 1 (new_df 1) ex_meta (fmt_fixed 2 5) (fmt_fixed 2 5) 5 5 False) = [None] \<and>
   snd (run_pass read_decimal ''a.RES'' 1 ex_meta 5 5 (new_df 1) False) = ([], Some TypeError) \<and>
   TypeError \<noteq> HeaderNotFound ''111'' False"
  by code_simp

end
